theory Spec2Isabelle
  imports Complex_Main "HOL-Library.Word"
begin

unbundle bit_operations_syntax

chapter \<open>The bitmap and edge-queue routines of afl-fuzz-bitmap.c\<close>

text \<open>
  A shallow embedding of \<^verbatim>\<open>src/afl-fuzz-bitmap.c\<close>, in the build the file has
  when it is compiled as it stands: \<^verbatim>\<open>WORD_SIZE_64\<close> defined, \<^verbatim>\<open>PATH_DIVERSITY\<close>,
  \<^verbatim>\<open>LEVENSHTEIN_DIST\<close> and \<^verbatim>\<open>NOISY\<close> undefined (the Levenshtein function itself is
  compiled in every build and is embedded too).

  Conventions.
  \<^item> A \<^verbatim>\<open>struct queue_entry *\<close> that points into \<^verbatim>\<open>afl->queue_buf\<close> is the index of the
    entry in the list \<open>queue_buf\<close>; entries are never freed, so an index stays valid.
    \<^verbatim>\<open>afl->queued_paths\<close> is the length of that list and \<^verbatim>\<open>afl->queue_top\<close> its last index.
  \<^item> An array with a count beside it (\<^verbatim>\<open>entries\<close>/\<^verbatim>\<open>entry_count\<close>,
    \<^verbatim>\<open>inputs\<close>/\<^verbatim>\<open>inputs_count\<close>) is the list of its live slots; the count is the length.
    \<^verbatim>\<open>testcase_buf\<close> together with \<^verbatim>\<open>len\<close> is a byte list: every entry of the
    embedding has its test case in memory, an entry whose \<^verbatim>\<open>testcase_buf\<close> is null (a test
    case not loaded yet) is outside it.
  \<^item> Sizes, counters and hit counts are natural numbers: the embedding covers runs in
    which no 32-bit counter wraps around (lengths below \<open>2 ^ 29\<close>, see the scratch
    growth). Content hashes are 64-bit words, trace bytes 8-bit words.
  \<^item> A \<^verbatim>\<open>float\<close> is the rational number it denotes, and every \<^verbatim>\<open>float\<close> operation rounds
    to single precision (\<open>float_of\<close>).
  \<^item> \<^verbatim>\<open>FATAL\<close>, \<^verbatim>\<open>PFATAL\<close> and a dereferenced null pointer end the process: a function
    that can reach one returns \<open>error + result\<close>, with \<open>Inl\<close> the abort.
  \<^item> What lives outside this file (the LZ4 compressor, \<^verbatim>\<open>hash64\<close>, \<^verbatim>\<open>calibrate_case\<close>,
    \<^verbatim>\<open>add_to_queue\<close>, the coverage headers) is a field of the record \<open>env\<close> or a
    definition marked as modelled from the specification.
\<close>

section \<open>Machine types and aborts\<close>

type_synonym u8 = "8 word"
type_synonym u64 = "64 word"

datatype error =
    NullPointerDereference
  | OutOfBounds
  | UninitialisedRead
  | UndefinedShift
  | FATAL string
  | PFATAL string

section \<open>Single-precision arithmetic\<close>

text \<open>
  The scores of this file are C \<^verbatim>\<open>float\<close>s: IEEE 754 binary32 values, every conversion,
  subtraction and division rounded to the nearest value with ties to even, and
  expressions of type \<^verbatim>\<open>float\<close> evaluated in that precision (as on x86-64). A \<^verbatim>\<open>float\<close> is
  modelled by the rational it denotes, and \<open>float_of x\<close> is the \<^verbatim>\<open>float\<close> that a correctly
  rounded operation with the exact result \<open>x\<close> returns: \<open>x\<close> rounded to 24 significant bits,
  in steps of \<open>2 ^ (e - 23)\<close> for \<open>2 ^ e \<le> \<bar>x\<bar> < 2 ^ (e + 1)\<close> and of \<open>2 ^ -149\<close> below
  \<open>2 ^ -126\<close>. Overflow to infinity is not modelled: the operands of this file are
  counts below \<open>2 ^ 64\<close> and their quotients, far below \<open>2 ^ 128\<close>.
\<close>

function floor_log2 :: "int \<Rightarrow> int" where
  "floor_log2 n = (if n < 2 then 0 else floor_log2 (n div 2) + 1)"
  by pat_completeness auto
termination
  by (relation "measure nat") auto

declare floor_log2.simps [simp del]

definition round_half_even :: "rat \<Rightarrow> int" where
  "round_half_even r =
     (let f = \<lfloor>r\<rfloor>; d = r - of_int f
      in if d < 1 / 2 then f else if d > 1 / 2 then f + 1 else if even f then f else f + 1)"

text \<open>
  The binary exponent of a positive rational \<open>p / q\<close> in lowest terms: with
  \<open>2 ^ a \<le> p < 2 ^ (a + 1)\<close> and \<open>2 ^ b \<le> q < 2 ^ (b + 1)\<close> it is \<open>a - b\<close> or \<open>a - b - 1\<close>.
\<close>

definition binary_exponent :: "rat \<Rightarrow> int" where
  "binary_exponent a =
     (case quotient_of a of
        (p, q) \<Rightarrow>
          let e0 = floor_log2 p - floor_log2 q
          in if power_int 2 e0 \<le> a then e0 else e0 - 1)"

definition float_of :: "rat \<Rightarrow> rat" where
  "float_of x =
     (if x = 0 then 0
      else
        let a = \<bar>x\<bar>;
            e = max (binary_exponent a) (- 126);
            ulp = power_int 2 (e - 23)
        in sgn x * of_int (round_half_even (a / ulp)) * ulp)"

section \<open>Hit-count classification\<close>

text \<open>
  \<^verbatim>\<open>count_class_lookup8[256]\<close>, read off its designated initialisers:
  \<^verbatim>\<open>[0] = 0, [1] = 1, [2] = 2, [3] = 4, [4 ... 7] = 8, [8 ... 15] = 16,
  [16 ... 31] = 32, [32 ... 127] = 64, [128 ... 255] = 128\<close>. The index is a byte.
\<close>

definition count_class_lookup8 :: "u8 \<Rightarrow> u8" where
  "count_class_lookup8 v =
     (let i = unat v in
      if i = 0 then 0
      else if i = 1 then 1
      else if i = 2 then 2
      else if i = 3 then 4
      else if 4 \<le> i \<and> i \<le> 7 then 8
      else if 8 \<le> i \<and> i \<le> 15 then 16
      else if 16 \<le> i \<and> i \<le> 31 then 32
      else if 32 \<le> i \<and> i \<le> 127 then 64
      else 128)"

section \<open>Queue entries\<close>

text \<open>
  \<^verbatim>\<open>struct queue_entry\<close> is declared in \<^verbatim>\<open>afl-fuzz.h\<close>; these are the fields this file
  reads or writes. \<open>testcase_buf\<close> holds the \<^verbatim>\<open>len\<close> bytes of the test case,
  \<open>trace_mini\<close> is \<open>None\<close> for a null pointer, \<open>edge_entry\<close> is the index of the owning
  cell in \<^verbatim>\<open>afl->edge_entries\<close>.
\<close>

record queue_entry =
  fname :: string
  testcase_buf :: "u8 list"
  input_hash :: u64
  exec_cksum :: u64
  trace_mini :: "u8 list option"
  compressed_len :: nat
  duplicates :: nat
  edge_entry :: "nat option"
  favored :: bool
  ncdm_favored :: bool
  has_new_cov :: bool
  was_fuzzed :: bool
  fuzz_level :: nat
  cal_failed :: nat
  exec_us :: nat
  bitmap_size :: nat
  handicap :: nat
  depth :: nat

abbreviation len :: "queue_entry \<Rightarrow> nat" where
  "len q \<equiv> length (testcase_buf q)"

section \<open>Normalised Levenshtein distance\<close>

text \<open>The macro \<^verbatim>\<open>LEVMIN(a, b, c)\<close>.\<close>

definition LEVMIN :: "nat \<Rightarrow> nat \<Rightarrow> nat \<Rightarrow> nat" where
  "LEVMIN a b c = (if a < b then (if a < c then a else c) else (if b < c then b else c))"

text \<open>
  The inner loop \<^verbatim>\<open>for (j = 0; j < len_2 - 1; j++)\<close> for one byte \<open>c = str_1[i]\<close>: it
  fills \<^verbatim>\<open>matrix2[j+1]\<close> from \<^verbatim>\<open>matrix2[j]\<close>, \<^verbatim>\<open>matrix1[j+1]\<close> and \<^verbatim>\<open>matrix1[j]\<close>.
\<close>

definition lev_row :: "u8 \<Rightarrow> u8 list \<Rightarrow> nat list \<Rightarrow> nat list \<Rightarrow> nat list" where
  "lev_row c str_2 matrix1 matrix2 =
     foldl (\<lambda>m2 j.
              let cost = (if c = str_2 ! j then 0 else 1)
              in m2[j + 1 := LEVMIN (m2 ! j + 1) (matrix1 ! (j + 1) + 1) (matrix1 ! j + cost)])
           matrix2 [0..<length str_2 - 1]"

text \<open>
  The outer loop \<^verbatim>\<open>for (i = 0; i < len_1 - 1; i++)\<close> on the pair of rows
  \<open>(matrix1, matrix2)\<close>: set \<^verbatim>\<open>matrix2[0] = i + 1\<close>, run the inner loop, copy
  \<^verbatim>\<open>matrix2\<close> over \<^verbatim>\<open>matrix1\<close>.
\<close>

definition lev_rows :: "u8 list \<Rightarrow> u8 list \<Rightarrow> nat list \<times> nat list \<Rightarrow> nat list \<times> nat list" where
  "lev_rows str_1 str_2 rows =
     foldl (\<lambda>(matrix1, matrix2) i.
              let m2 = lev_row (str_1 ! i) str_2 matrix1 (matrix2[0 := i + 1])
              in (m2, m2))
           rows [0..<length str_1 - 1]"

text \<open>
  \<^verbatim>\<open>calc_normalised_levenshtein_dist\<close>. The second argument may be a null pointer.
  \<^verbatim>\<open>matrix2\<close> is an uninitialised array of \<open>len_2\<close> cells; every cell is written
  before it is read (cell \<open>0\<close> before the loop, the others in the first pass of the outer
  loop), so its initial contents, zeros here, are never seen. \<^verbatim>\<open>len_1 - edit_dist\<close>
  is computed in \<^verbatim>\<open>size_t\<close> and wraps modulo \<open>2 ^ 64\<close>. The result is
  \<^verbatim>\<open>(float)(len_1 - edit_dist) / (float)len_1\<close>: two conversions and a division in single
  precision.
\<close>

definition lev_edit_dist :: "u8 list \<Rightarrow> u8 list \<Rightarrow> nat" where
  "lev_edit_dist str_1 str_2 =
     (let len_2 = length str_2;
          matrix1 = [0..<len_2];
          matrix2 = (replicate len_2 0)[0 := (if str_1 ! 0 = str_2 ! 0 then 0 else 1)];
          (matrix1', matrix2') = lev_rows str_1 str_2 (matrix1, matrix2)
      in matrix2' ! (len_2 - 1))"

definition calc_normalised_levenshtein_dist ::
  "queue_entry \<Rightarrow> queue_entry option \<Rightarrow> error + rat" where
  "calc_normalised_levenshtein_dist queue_entry_1 queue_entry_2_ptr =
     (case queue_entry_2_ptr of
        None \<Rightarrow> Inr 0
      | Some queue_entry_2 \<Rightarrow>
          if len queue_entry_1 = 0 \<or> len queue_entry_2 = 0 then Inr 0
          else if len queue_entry_1 = len queue_entry_2 \<and>
                  testcase_buf queue_entry_1 = testcase_buf queue_entry_2 then Inr 0
          else
            let (str_1, str_2) =
                  (if len queue_entry_1 > len queue_entry_2
                   then (testcase_buf queue_entry_1, testcase_buf queue_entry_2)
                   else (testcase_buf queue_entry_2, testcase_buf queue_entry_1));
                len_1 = length str_1;
                len_2 = length str_2
            in if len_1 = 0 \<or> len_2 = 0 then Inr 0
               else
                 let edit_dist = lev_edit_dist str_1 str_2;
                     numerator = (len_1 + 2 ^ 64 - edit_dist) mod 2 ^ 64;
                     norm_dist = float_of (float_of (of_nat numerator) / float_of (of_nat len_1))
                 in if norm_dist > 1 \<or> norm_dist < 0
                    then Inl (FATAL ''got norm dist'')
                    else Inr norm_dist)"

text \<open>
  The classical Levenshtein edit distance (insertions, deletions and substitutions of
  one byte), as the specification names it; this definition follows the specification's
  words, not the source, and is what the source's result is compared with.
\<close>

fun levenshtein :: "'a list \<Rightarrow> 'a list \<Rightarrow> nat" where
  "levenshtein [] ys = length ys"
| "levenshtein (x # xs) [] = Suc (length xs)"
| "levenshtein (x # xs) (y # ys) =
     min (min (levenshtein xs (y # ys) + 1) (levenshtein (x # xs) ys + 1))
         (levenshtein xs ys + (if x = y then 0 else 1))"

text \<open>The result the specification describes: \<open>(len_longer - edit_dist) / len_longer\<close>.\<close>

definition spec_normalised_levenshtein :: "u8 list \<Rightarrow> u8 list \<Rightarrow> rat" where
  "spec_normalised_levenshtein a b =
     (if a = [] \<or> b = [] \<or> a = b then 0
      else let len_longer = max (length a) (length b)
           in (of_nat len_longer - of_nat (levenshtein a b)) / of_nat len_longer)"

section \<open>The state\<close>

text \<open>
  \<^verbatim>\<open>struct queue_input_hash\<close>: one bucket of the input-hash index. \<open>inputs\<close> are the
  first \<^verbatim>\<open>inputs_count\<close> slots of the array, as indices into the queue.
\<close>

record queue_input_hash =
  hash :: u64
  inputs :: "nat list"
  allocated_inputs :: nat

abbreviation inputs_count :: "queue_input_hash \<Rightarrow> nat" where
  "inputs_count b \<equiv> length (inputs b)"

text \<open>
  \<^verbatim>\<open>struct edge_entry\<close>: one (edge, bucket) cell. \<open>entries\<close> are the first
  \<^verbatim>\<open>entry_count\<close> slots, as indices into the queue.
\<close>

record edge_entry =
  edge_num :: nat
  edge_frequency :: nat
  hit_count :: nat
  discovery_execs :: nat
  replacement_count :: nat
  entries :: "nat list"
  normalised_compression_dist :: rat

abbreviation entry_count :: "edge_entry \<Rightarrow> nat" where
  "entry_count c \<equiv> length (entries c)"

text \<open>The fields of \<^verbatim>\<open>afl->fsrv\<close> that this file uses.\<close>

record afl_forkserver =
  map_size :: nat
  trace_bits :: "u8 list"
  total_execs :: nat

text \<open>
  The program state of this file: the fields of \<^verbatim>\<open>afl_state_t\<close> it uses, the file's
  static variables \<^verbatim>\<open>prevLongest\<close> and \<^verbatim>\<open>maxCompressedLen\<close> (the contents of the two
  scratch buffers are dead between calls and are not kept), the files of the output
  directory, and \<open>stack_entry\<close>: the \<^verbatim>\<open>struct queue_entry new\<close> that
  \<^verbatim>\<open>save_if_interesting\<close> builds on its stack and passes by pointer.
  The hash map \<^verbatim>\<open>queue_input_hashmap\<close> (\<^verbatim>\<open>hashmap.h\<close>, keyed by the field \<^verbatim>\<open>hash\<close>) is a
  partial map from keys to buckets; a pointer to a stored bucket is its key.
\<close>

record afl_state =
  fsrv :: afl_forkserver
  virgin_bits :: "u8 list"
  edge_entries :: "edge_entry list"
  edge_entry_count :: nat
  ncd_entries_per_edge :: nat
  queue_buf :: "queue_entry list"
  queue_input_hashmap :: "u64 \<Rightarrow> queue_input_hash option"
  top_rated :: "nat option list"
  queue_cycle :: nat
  pending_edge_entries :: nat
  discovered_edge_entries :: nat
  files :: "string \<Rightarrow> u8 list option"
  prevLongest :: nat
  maxCompressedLen :: nat
  stack_entry :: queue_entry

abbreviation queued_paths :: "afl_state \<Rightarrow> nat" where
  "queued_paths afl \<equiv> length (queue_buf afl)"

text \<open>A \<^verbatim>\<open>struct queue_entry *\<close>: into the queue, or to the caller's stack entry.\<close>

datatype qref = InQueue nat | OnStack

fun deref :: "afl_state \<Rightarrow> qref \<Rightarrow> queue_entry" where
  "deref afl (InQueue i) = queue_buf afl ! i"
| "deref afl OnStack = stack_entry afl"

fun assign :: "afl_state \<Rightarrow> qref \<Rightarrow> queue_entry \<Rightarrow> afl_state" where
  "assign afl (InQueue i) q = afl\<lparr>queue_buf := (queue_buf afl)[i := q]\<rparr>"
| "assign afl OnStack q = afl\<lparr>stack_entry := q\<rparr>"

text \<open>
  What the file calls and does not define. \<open>LZ4_compress_default env src cap\<close> is the
  return value of \<^verbatim>\<open>LZ4_compress_default(src, dst, srcSize, dstCapacity)\<close> on the bytes
  \<open>src\<close> with \<open>dstCapacity = cap\<close>; \<open>hash64 env buf\<close> is \<^verbatim>\<open>hash64(buf, len, HASH_CONST)\<close>.
  \<open>get_filename\<close> and \<open>updated_filename\<close> stand for the two \<^verbatim>\<open>printf\<close>-built file names
  (their text depends on the clock and on the mutation stage); \<open>updated_filename\<close>
  is \<open>None\<close> when the old name has no \<^verbatim>\<open>",op:"\<close>.
  \<open>calibrate_case\<close> is modelled from the specification, see \<open>run_calibrate_case\<close>.
\<close>

record env =
  hash64 :: "u8 list \<Rightarrow> u64"
  LZ4_compress_default :: "u8 list \<Rightarrow> nat \<Rightarrow> nat"
  LZ4_compressBound :: "nat \<Rightarrow> nat"
  get_filename :: "afl_state \<Rightarrow> u64 \<Rightarrow> edge_entry \<Rightarrow> string"
  updated_filename :: "afl_state \<Rightarrow> string \<Rightarrow> string option"
  calibrate_case :: "afl_state \<Rightarrow> nat \<Rightarrow> nat \<Rightarrow> (nat \<times> nat \<times> u64 \<times> nat \<times> nat) \<times> nat option list"
  get_fav_factor :: "afl_state \<Rightarrow> nat \<Rightarrow> nat"
  update_bitmap_score :: "afl_state \<Rightarrow> nat \<Rightarrow> nat option list"

section \<open>The input-hash index\<close>

text \<open>
  The first loop of \<^verbatim>\<open>move_queue_entry_to_correct_input_hash\<close>, over
  \<^verbatim>\<open>i < found->inputs_count\<close>: every member's \<^verbatim>\<open>duplicates\<close> is set to
  \<^verbatim>\<open>inputs_count - 2\<close> (or 0), and from the evictee's slot on each slot takes its right
  neighbour. The loop state is \<open>(removed, inputs, queue_buf)\<close>; \<open>n\<close> is
  \<^verbatim>\<open>found->inputs_count\<close>, which the loop does not change.
\<close>

definition remove_step ::
  "nat \<Rightarrow> nat \<Rightarrow> bool \<times> nat list \<times> queue_entry list \<Rightarrow> nat \<Rightarrow> bool \<times> nat list \<times> queue_entry list" where
  "remove_step evictee n st i =
     (case st of (removed, inps, qs) \<Rightarrow>
        let entry = inps ! i;
            qs' = qs[entry := (qs ! entry)\<lparr>duplicates := (if n \<ge> 2 then n - 2 else 0)\<rparr>];
            removed' = (removed \<or> entry = evictee);
            inps' = (if removed' \<and> i < n - 1 then inps[i := inps ! (i + 1)] else inps)
        in (removed', inps', qs'))"

definition remove_loop ::
  "nat \<Rightarrow> nat list \<Rightarrow> queue_entry list \<Rightarrow> bool \<times> nat list \<times> queue_entry list" where
  "remove_loop evictee inps qs =
     foldl (remove_step evictee (length inps)) (False, inps, qs) [0..<length inps]"

text \<open>The last loop: every member of the bucket gets \<^verbatim>\<open>duplicates = inputs_count - 1\<close>.\<close>

definition set_duplicates :: "nat list \<Rightarrow> nat \<Rightarrow> queue_entry list \<Rightarrow> queue_entry list" where
  "set_duplicates inps d qs = foldl (\<lambda>qs' e. qs'[e := (qs' ! e)\<lparr>duplicates := d\<rparr>]) qs inps"

text \<open>
  \<^verbatim>\<open>move_queue_entry_to_correct_input_hash(afl, evictee, new)\<close>; \<open>evictee\<close> is in the
  queue. The source reads \<^verbatim>\<open>found->hash\<close> before it tests \<^verbatim>\<open>!found\<close>: the model keeps
  the order, so a null \<open>found\<close> is a null-pointer dereference at the first test.
  \<^verbatim>\<open>found->inputs_count--\<close> on a list is dropping the last slot.
\<close>

definition move_queue_entry_to_correct_input_hash ::
  "afl_state \<Rightarrow> nat \<Rightarrow> qref \<Rightarrow> error + afl_state" where
  "move_queue_entry_to_correct_input_hash afl evictee new =
     (let key = input_hash (queue_buf afl ! evictee);
          found = queue_input_hashmap afl key
      in case found of
           None \<Rightarrow> Inl NullPointerDereference
         | Some b \<Rightarrow>
             if hash b \<noteq> input_hash (queue_buf afl ! evictee)
             then Inl (FATAL ''found->hash != evictee->input_hash'')
             else if found = None
             then Inl (FATAL ''Failed to find queue_input_hash'')
             else
               let (removed, inps, qs) = remove_loop evictee (inputs b) (queue_buf afl);
                   b' = b\<lparr>inputs := butlast inps\<rparr>;
                   afl1 = afl\<lparr>queue_buf := qs,
                              queue_input_hashmap := (queue_input_hashmap afl)(key \<mapsto> b')\<rparr>
               in if \<not> removed
                  then Inl (FATAL ''Failed to find this queue_entry in list of found->inputs'')
                  else
                    let new_hash = input_hash (deref afl1 new);
                        qs1 = (queue_buf afl1)[evictee := (queue_buf afl1 ! evictee)\<lparr>input_hash := new_hash\<rparr>];
                        afl2 = afl1\<lparr>queue_buf := qs1\<rparr>
                    in case queue_input_hashmap afl2 new_hash of
                         None \<Rightarrow>
                           Inr (afl2\<lparr>queue_buf := qs1[evictee := (qs1 ! evictee)\<lparr>duplicates := 0\<rparr>],
                                     queue_input_hashmap := (queue_input_hashmap afl2)
                                       (new_hash \<mapsto> \<lparr>hash = new_hash, inputs = [evictee],
                                                     allocated_inputs = 8\<rparr>)\<rparr>)
                       | Some f \<Rightarrow>
                           let f1 = (if allocated_inputs f = inputs_count f
                                     then f\<lparr>allocated_inputs := 2 * allocated_inputs f\<rparr> else f);
                               f2 = f1\<lparr>inputs := inputs f1 @ [evictee]\<rparr>;
                               d = (if inputs_count f2 \<ge> 1 then inputs_count f2 - 1 else 0)
                           in Inr (afl2\<lparr>queue_buf := set_duplicates (inputs f2) d qs1,
                                        queue_input_hashmap := (queue_input_hashmap afl2)
                                          (new_hash \<mapsto> f2)\<rparr>))"

section \<open>Zero-initialised values\<close>

text \<open>
  A queue entry as \<^verbatim>\<open>ck_alloc\<close> (which zeroes memory) or an initialiser
  \<^verbatim>\<open>{ .testcase_buf = mem, .len = len, ... }\<close> leaves it: every field not named is zero,
  every pointer null.
\<close>

definition zeroed_queue_entry :: queue_entry where
  "zeroed_queue_entry =
     \<lparr>fname = [], testcase_buf = [], input_hash = 0, exec_cksum = 0, trace_mini = None,
      compressed_len = 0, duplicates = 0, edge_entry = None, favored = False,
      ncdm_favored = False, has_new_cov = False, was_fuzzed = False, fuzz_level = 0,
      cal_failed = 0, exec_us = 0, bitmap_size = 0, handicap = 0, depth = 0\<rparr>"

definition zeroed_edge_entry :: "nat \<Rightarrow> nat \<Rightarrow> edge_entry" where
  "zeroed_edge_entry e r =
     \<lparr>edge_num = e, edge_frequency = r, hit_count = 0, discovery_execs = 0,
      replacement_count = 0, entries = [], normalised_compression_dist = 0\<rparr>"

text \<open>
  The state before the first execution, for a map of \<open>m\<close> edges with \<open>k\<close> entries per
  cell: all \<open>8 * m\<close> cells empty, the queue and the hash index empty, the virgin map all
  ones, the scratch unallocated.
\<close>

definition initial_afl :: "nat \<Rightarrow> nat \<Rightarrow> u8 list \<Rightarrow> afl_state" where
  "initial_afl m k trace =
     \<lparr>fsrv = \<lparr>map_size = m, trace_bits = trace, total_execs = 0\<rparr>,
      virgin_bits = replicate m 255,
      edge_entries = map (\<lambda>p. zeroed_edge_entry (p div 8) (p mod 8)) [0..<8 * m],
      edge_entry_count = 8 * m,
      ncd_entries_per_edge = k,
      queue_buf = [],
      queue_input_hashmap = Map.empty,
      top_rated = replicate m None,
      queue_cycle = 1,
      pending_edge_entries = 0,
      discovered_edge_entries = 0,
      files = Map.empty,
      prevLongest = 0,
      maxCompressedLen = 0,
      stack_entry = zeroed_queue_entry\<rparr>"

section \<open>Compression scratch and NCDm\<close>

text \<open>
  The loop \<^verbatim>\<open>while (val > 1) { bitcnt++; val >>= 1; }\<close>, on \<open>(bitcnt, val)\<close>.
\<close>

function bitcnt_loop :: "nat \<Rightarrow> nat \<Rightarrow> nat" where
  "bitcnt_loop bitcnt val = (if val > 1 then bitcnt_loop (bitcnt + 1) (val div 2) else bitcnt)"
  by pat_completeness auto
termination
  by (relation "measure (\<lambda>(bitcnt, val). val)") auto

declare bitcnt_loop.simps [simp del]

text \<open>
  The block that both \<^verbatim>\<open>calc_NCDm\<close> and \<^verbatim>\<open>fill_trace_mini_and_compressed_len\<close> run
  when the scratch is too small, for a demand \<open>val\<close>:
  \<^verbatim>\<open>prevLongest = 1 << (bitcnt + 2); maxCompressedLen = LZ4_compressBound(prevLongest)\<close>.
  The shift is on a C \<^verbatim>\<open>int\<close> and is defined only for \<open>bitcnt + 2 < 31\<close>, that is for
  \<open>val < 2 ^ 29\<close>; the embedding is \<open>2 ^ (bitcnt + 2)\<close> and is the source's value
  on that range. The reallocations cannot fail (\<^verbatim>\<open>ck_realloc\<close> aborts instead).
\<close>

definition grow_scratch :: "env \<Rightarrow> afl_state \<Rightarrow> nat \<Rightarrow> afl_state" where
  "grow_scratch env afl val =
     (let bitcnt = bitcnt_loop 0 val;
          pl = 2 ^ (bitcnt + 2)
      in afl\<lparr>prevLongest := pl, maxCompressedLen := LZ4_compressBound env pl\<rparr>)"

text \<open>
  The first loop of \<^verbatim>\<open>calc_NCDm\<close>, on \<open>(afl, totalLen, minCompressedLen)\<close>: an entry
  whose \<^verbatim>\<open>compressed_len\<close> is 0 is compressed now, into the scratch as it is before
  any growth. The test is \<^verbatim>\<open>!entry->compressed_len || !entry->testcase_buf\<close>; the entries
  of the embedding have their test case in memory, so the second disjunct is false and
  \<^verbatim>\<open>queue_testcase_get\<close> is not called.
\<close>

definition ncdm_measure_step ::
  "env \<Rightarrow> afl_state \<times> nat \<times> nat \<Rightarrow> qref \<Rightarrow> afl_state \<times> nat \<times> nat" where
  "ncdm_measure_step env st r =
     (case st of (afl, totalLen, minCompressedLen) \<Rightarrow>
        let entry = deref afl r;
            afl' = (if compressed_len entry = 0
                    then assign afl r (entry\<lparr>compressed_len :=
                           LZ4_compress_default env (testcase_buf entry) (maxCompressedLen afl)\<rparr>)
                    else afl);
            c = compressed_len (deref afl' r)
        in (afl', totalLen + len entry,
            if c < minCompressedLen then c else minCompressedLen))"

text \<open>
  The bytes copied into \<^verbatim>\<open>uncompressedData\<close> by the second loop, and by the inner
  loop that skips the entry at position \<open>leftOut\<close>.
\<close>

definition concat_entries :: "afl_state \<Rightarrow> qref list \<Rightarrow> u8 list" where
  "concat_entries afl refs = concat (map (\<lambda>r. testcase_buf (deref afl r)) refs)"

definition concat_without :: "afl_state \<Rightarrow> qref list \<Rightarrow> nat \<Rightarrow> u8 list" where
  "concat_without afl refs leftOut =
     concat (map (\<lambda>i. testcase_buf (deref afl (refs ! i)))
                 (filter (\<lambda>i. i \<noteq> leftOut) [0..<length refs]))"

text \<open>
  \<^verbatim>\<open>calc_NCDm(afl, queue_entries, queue_entries_count)\<close>; the list is the array with
  its count. \<^verbatim>\<open>minCompressedLen\<close> starts at \<^verbatim>\<open>UINT32_MAX\<close>. Returns the score and the
  state (entries compressed on the way, scratch grown). The score is
  \<^verbatim>\<open>((float)fullSetCompressedLen - (float)minCompressedLen) / (float)maxSubsetCompressedLen\<close>:
  three conversions, a subtraction and a division, each rounded to single precision.
  \<^verbatim>\<open>totalLen\<close> and \<^verbatim>\<open>pos\<close> are \<^verbatim>\<open>u32\<close> and the lengths are passed to LZ4 as \<^verbatim>\<open>int\<close>; the
  natural numbers here are the source's values while the total length is below
  \<open>2 ^ 29\<close>, the range on which the scratch growth is defined.
\<close>

definition calc_NCDm :: "env \<Rightarrow> afl_state \<Rightarrow> qref list \<Rightarrow> rat \<times> afl_state" where
  "calc_NCDm env afl queue_entries =
     (let (afl1, totalLen, minCompressedLen) =
            foldl (ncdm_measure_step env) (afl, 0, 4294967295) queue_entries;
          afl2 = (if prevLongest afl1 \<le> totalLen then grow_scratch env afl1 totalLen else afl1);
          fullSetCompressedLen =
            LZ4_compress_default env (concat_entries afl2 queue_entries) (maxCompressedLen afl2);
          maxSubsetCompressedLen =
            foldl (\<lambda>m leftOut.
                     let compressedLen =
                           LZ4_compress_default env (concat_without afl2 queue_entries leftOut)
                             (maxCompressedLen afl2)
                     in if compressedLen > m then compressedLen else m)
                  0 [0..<length queue_entries]
      in if maxSubsetCompressedLen = 0 then (0, afl2)
         else (float_of (float_of (float_of (of_nat fullSetCompressedLen)
                                     - float_of (of_nat minCompressedLen))
                           / float_of (of_nat maxSubsetCompressedLen)), afl2))"

text \<open>
  \<^verbatim>\<open>find_eviction_candidate\<close> (built without \<^verbatim>\<open>LEVENSHTEIN_DIST\<close>). The loop state is
  \<open>(afl, evictionCandidate, best_dist)\<close>; \<^verbatim>\<open>all_entries\<close> for index \<open>i\<close> is the array
  without slot \<open>i\<close>, with \<^verbatim>\<open>new_entry\<close> in the last slot.
\<close>

definition eviction_step ::
  "env \<Rightarrow> qref list \<Rightarrow> qref \<Rightarrow> afl_state \<times> int \<times> rat \<Rightarrow> nat \<Rightarrow> afl_state \<times> int \<times> rat" where
  "eviction_step env existing_edge_entries new_entry st i =
     (case st of (afl, evictionCandidate, best_dist) \<Rightarrow>
        let all_entries = take i existing_edge_entries @ drop (i + 1) existing_edge_entries
                            @ [new_entry];
            (candidate_dist, afl') = calc_NCDm env afl all_entries
        in if candidate_dist > best_dist then (afl', int i, candidate_dist)
           else (afl', evictionCandidate, best_dist))"

definition find_eviction_candidate ::
  "env \<Rightarrow> afl_state \<Rightarrow> rat \<Rightarrow> qref list \<Rightarrow> qref \<Rightarrow> bool \<Rightarrow> error + int \<times> afl_state" where
  "find_eviction_candidate env afl existing_entries_NCD existing_edge_entries new_entry forced =
     (if length existing_edge_entries > 32
      then Inl (PFATAL ''Cannot handle more than 32 entries'')
      else
        let (afl', evictionCandidate, best_dist) =
              foldl (eviction_step env existing_edge_entries new_entry)
                    (afl, - 1, if forced then 0 else existing_entries_NCD)
                    [0..<length existing_edge_entries]
        in if \<not> forced \<and> best_dist \<le> existing_entries_NCD then Inr (- 1, afl')
           else Inr (evictionCandidate, afl'))"

text \<open>
  \<^verbatim>\<open>minimize_bits(afl, dst, src)\<close> on a zeroed \<open>dst\<close> of \<^verbatim>\<open>map_size >> 3\<close> bytes: bit
  \<open>i & 7\<close> of byte \<open>i >> 3\<close> is set when \<open>src[i]\<close> is not zero, for \<open>i < map_size\<close>.
\<close>

definition minimize_bits :: "nat \<Rightarrow> u8 list \<Rightarrow> u8 list \<Rightarrow> u8 list" where
  "minimize_bits msize dst src =
     foldl (\<lambda>d i. if src ! i \<noteq> 0
                   then d[i div 8 := (d ! (i div 8)) OR push_bit (i mod 8) 1] else d)
           dst [0..<msize]"

text \<open>
  \<^verbatim>\<open>fill_trace_mini_and_compressed_len(afl, q_entry)\<close> (built without
  \<^verbatim>\<open>PATH_DIVERSITY\<close>): grow the scratch when \<^verbatim>\<open>2 * q_entry->len > prevLongest\<close>, set
  \<^verbatim>\<open>trace_mini\<close> from the current trace, compress the test case.
\<close>

definition fill_trace_mini_and_compressed_len ::
  "env \<Rightarrow> afl_state \<Rightarrow> qref \<Rightarrow> error + afl_state" where
  "fill_trace_mini_and_compressed_len env afl q_entry =
     (let trace_map_len = map_size (fsrv afl) div 8;
          afl1 = (if 2 * len (deref afl q_entry) > prevLongest afl
                  then grow_scratch env afl (len (deref afl q_entry)) else afl);
          q1 = (deref afl1 q_entry)\<lparr>trace_mini :=
                  Some (minimize_bits (map_size (fsrv afl1)) (replicate trace_map_len 0)
                          (trace_bits (fsrv afl1)))\<rparr>;
          q2 = q1\<lparr>compressed_len :=
                  LZ4_compress_default env (testcase_buf q1) (maxCompressedLen afl1)\<rparr>;
          afl2 = assign afl1 q_entry q2
      in if compressed_len q2 = 0 then Inl (FATAL ''compressedLen failed!'')
         else Inr afl2)"

section \<open>Reference definitions that follow the specification's words\<close>

text \<open>
  The specification's growth policy, "round up to the next power of two, multiplied by
  4x headroom": the least power of two that is at least the demand, times four. These
  two definitions follow the specification, not the source.
\<close>

fun round_up_pow2 :: "nat \<Rightarrow> nat" where
  "round_up_pow2 n = (if n \<le> 1 then 1 else 2 * round_up_pow2 ((n + 1) div 2))"

declare round_up_pow2.simps [simp del]

definition spec_scratch_capacity :: "nat \<Rightarrow> nat" where
  "spec_scratch_capacity demand = 4 * round_up_pow2 demand"

definition power_of_two :: "nat \<Rightarrow> bool" where
  "power_of_two n = (\<exists>k<n. n = 2 ^ k)"

text \<open>
  The specification's \<open>NCDm = (fullC - minC) / maxSubsetC\<close>, or 0 when
  \<open>maxSubsetC = 0\<close>, for a compressed-size function \<open>C\<close> and the payloads
  \<open>bufs = [e1, ..., en]\<close>: \<open>fullC = C (e1 @ ... @ en)\<close>, \<open>minC\<close> the least \<open>C ei\<close>,
  \<open>maxSubsetC\<close> the greatest \<open>C\<close> of a concatenation that leaves one \<open>ei\<close> out.
  It follows the specification, not the source.
\<close>

definition leave_out :: "'a list \<Rightarrow> nat \<Rightarrow> 'a list" where
  "leave_out xs i = take i xs @ drop (Suc i) xs"

definition spec_NCDm :: "(u8 list \<Rightarrow> nat) \<Rightarrow> u8 list list \<Rightarrow> rat" where
  "spec_NCDm C bufs =
     (let fullC = C (concat bufs);
          minC = Min (set (map C bufs));
          maxSubsetC = Max (set (map (\<lambda>i. C (concat (leave_out bufs i))) [0..<length bufs]))
      in if maxSubsetC = 0 then 0 else (of_nat fullC - of_nat minC) / of_nat maxSubsetC)"

text \<open>
  The same three sizes combined as the source combines them, in single precision:
  \<open>float_of (float_of (float_of fullC - float_of minC) / float_of maxSubsetC)\<close>.
\<close>

definition float_NCDm :: "(u8 list \<Rightarrow> nat) \<Rightarrow> u8 list list \<Rightarrow> rat" where
  "float_NCDm C bufs =
     (let fullC = C (concat bufs);
          minC = Min (set (map C bufs));
          maxSubsetC = Max (set (map (\<lambda>i. C (concat (leave_out bufs i))) [0..<length bufs]))
      in if maxSubsetC = 0 then 0
         else float_of (float_of (float_of (of_nat fullC) - float_of (of_nat minC))
                          / float_of (of_nat maxSubsetC)))"

text \<open>
  What is assumed of the LZ4 library: \<open>C\<close> is the compressed size of a byte string;
  \<^verbatim>\<open>LZ4_compress_default\<close> returns it when the destination has that much room;
  \<^verbatim>\<open>LZ4_compressBound\<close> is monotone and bounds the compressed size of an input of the
  given length.
\<close>

definition compressor :: "env \<Rightarrow> (u8 list \<Rightarrow> nat) \<Rightarrow> bool" where
  "compressor env C =
     ((\<forall>src cap. C src \<le> cap \<longrightarrow> LZ4_compress_default env src cap = C src)
      \<and> (\<forall>src. C src \<le> LZ4_compressBound env (length src))
      \<and> (\<forall>m n. m \<le> n \<longrightarrow> LZ4_compressBound env m \<le> LZ4_compressBound env n))"

section \<open>A small environment for concrete runs\<close>

text \<open>
  A stand-in for the collaborators, used where a theorem is run on a concrete input:
  the compressed size of a byte string is one more than its number of runs of equal
  bytes, \<^verbatim>\<open>LZ4_compress_default\<close> returns 0 when the destination is too small,
  \<^verbatim>\<open>LZ4_compressBound\<close> is LZ4's \<open>n + n / 255 + 16\<close>, the hash of a byte string is the
  sum of its bytes plus its length, a file name is the id printed in unary, and
  calibration measures nothing and leaves \<^verbatim>\<open>top_rated\<close> alone.
\<close>

definition toy_C :: "u8 list \<Rightarrow> nat" where
  "toy_C src = Suc (length (remdups_adj src))"

definition toy_env :: env where
  "toy_env =
     \<lparr>hash64 = (\<lambda>buf. of_nat (length buf) + sum_list (map ucast buf)),
      LZ4_compress_default = (\<lambda>src cap. if toy_C src \<le> cap then toy_C src else 0),
      LZ4_compressBound = (\<lambda>n. n + n div 255 + 16),
      get_filename = (\<lambda>afl cksum e. replicate (queued_paths afl) (CHR ''i'') @ '',op:havoc''),
      updated_filename = (\<lambda>afl old. Some (takeWhile (\<lambda>c. c \<noteq> CHR '','') old @ '',updated,op:havoc'')),
      calibrate_case = (\<lambda>afl q handicap. ((0, 0, 0, 0, handicap), top_rated afl)),
      get_fav_factor = (\<lambda>afl q. len (queue_buf afl ! q)),
      update_bitmap_score = (\<lambda>afl q. top_rated afl)\<rparr>"

section \<open>The NCDm-favored cover\<close>

text \<open>
  The three loops over \<^verbatim>\<open>u64\<close> words of two minimised traces read
  \<^verbatim>\<open>map_size >> 6\<close> words, that is the first \<open>8 * n\<close> bytes for \<open>n = map_size div 64\<close>;
  comparing, or-ing and testing words is comparing, or-ing and testing their bytes.
  A minimised trace has \<^verbatim>\<open>map_size >> 3\<close> bytes, so the loops stay inside it; \<open>byte_at\<close>
  reads 0 beyond the end of a list so that the functions are total.
\<close>

definition byte_at :: "u8 list \<Rightarrow> nat \<Rightarrow> u8" where
  "byte_at t k = (if k < length t then t ! k else 0)"


definition trace_contains_new_coverage :: "nat \<Rightarrow> u8 list \<Rightarrow> u8 list \<Rightarrow> bool" where
  "trace_contains_new_coverage n trace1 trace2 =
     (\<exists>k < 8 * n. (byte_at trace1 k OR byte_at trace2 k) \<noteq> byte_at trace2 k)"

text \<open>The loop \<^verbatim>\<open>while (i--) { *discovered |= *new_input_map; ... }\<close>.\<close>

definition or_into :: "nat \<Rightarrow> u8 list \<Rightarrow> u8 list \<Rightarrow> u8 list" where
  "or_into n discovered new_input_map =
     map (\<lambda>k. if k < 8 * n then byte_at discovered k OR byte_at new_input_map k
              else byte_at discovered k)
         [0..<max (length discovered) (8 * n)]"

text \<open>
  The body of \<^verbatim>\<open>for (u32 i = 0; i < afl->queued_paths; i++)\<close> inside the cover loop.
  The loop state is \<open>(afl, shortest, best_NCDm, best_candidate, found_cov)\<close>;
  \<open>selected\<close> are the first \<^verbatim>\<open>len\<close> slots of \<^verbatim>\<open>selected_inputs\<close>. Reading
  \<^verbatim>\<open>q->trace_mini\<close> through a null pointer ends the process.
\<close>

definition cover_scan_step ::
  "env \<Rightarrow> nat \<Rightarrow> u8 list \<Rightarrow> nat list
   \<Rightarrow> error + afl_state \<times> nat \<times> rat \<times> nat option \<times> bool \<Rightarrow> nat
   \<Rightarrow> error + afl_state \<times> nat \<times> rat \<times> nat option \<times> bool" where
  "cover_scan_step env n selected_inputs_map selected st i =
     (case st of
        Inl e \<Rightarrow> Inl e
      | Inr (afl, shortest, best_NCDm, best_candidate, found_cov) \<Rightarrow>
          (case trace_mini (queue_buf afl ! i) of
             None \<Rightarrow> Inl NullPointerDereference
           | Some tm \<Rightarrow>
               if \<not> trace_contains_new_coverage n tm selected_inputs_map
               then Inr (afl, shortest, best_NCDm, best_candidate, found_cov)
               else if selected = []
               then (if compressed_len (queue_buf afl ! i) < shortest
                     then Inr (afl, compressed_len (queue_buf afl ! i), best_NCDm, Some i, True)
                     else Inr (afl, shortest, best_NCDm, best_candidate, True))
               else
                 let (ncdm, afl') = calc_NCDm env afl (map InQueue selected @ [InQueue i])
                 in if ncdm > best_NCDm then Inr (afl', shortest, ncdm, Some i, True)
                    else Inr (afl', shortest, best_NCDm, best_candidate, True)))"






section \<open>Collaborators modelled from the specification\<close>

text \<open>
  Modelled from the spec: \<^verbatim>\<open>add_to_queue\<close> (in \<^verbatim>\<open>afl-fuzz-queue.c\<close>, not part of this
  file). The specification's Queue is an append-only vector with
  \<open>add(fname, len, passed_det, depth, cksum, new_bits)\<close> returning the new entry: a
  zero-initialised entry with the file name, length, depth and checksum is appended and
  becomes \<^verbatim>\<open>queue_top\<close>. Its test-case buffer is allocated by the caller; until then it
  is \<open>len\<close> zero bytes here.
\<close>

definition add_to_queue ::
  "afl_state \<Rightarrow> string \<Rightarrow> nat \<Rightarrow> nat \<Rightarrow> nat \<Rightarrow> u64 \<Rightarrow> nat \<Rightarrow> afl_state" where
  "add_to_queue afl fname' len' passed_det depth' cksum new_bits =
     afl\<lparr>queue_buf := queue_buf afl @
            [zeroed_queue_entry\<lparr>fname := fname', testcase_buf := replicate len' 0,
                                exec_cksum := cksum, depth := depth'\<rparr>]\<rparr>"

text \<open>
  Modelled from the spec: \<^verbatim>\<open>calibrate_case\<close> (in \<^verbatim>\<open>afl-fuzz-run.c\<close>, not part of this
  file). The specification's calibration is a one-time measurement per queue entry of
  execution time, bitmap size and handicap, with the failure flag recorded on the
  entry; the source's comments add that it calls \<^verbatim>\<open>update_bitmap_score\<close>, which owns
  \<^verbatim>\<open>top_rated\<close>. So calibrating entry \<open>q\<close> writes the five calibration fields of \<open>q\<close>
  and \<^verbatim>\<open>top_rated\<close>, and nothing else of the state of this file.
\<close>

definition run_calibrate_case :: "env \<Rightarrow> afl_state \<Rightarrow> nat \<Rightarrow> afl_state" where
  "run_calibrate_case env afl q =
     (case calibrate_case env afl q (queue_cycle afl - 1) of
        ((cf, us, ck, bs, h), tr) \<Rightarrow>
          afl\<lparr>queue_buf := (queue_buf afl)[q := (queue_buf afl ! q)
                   \<lparr>cal_failed := cf, exec_us := us, exec_cksum := ck, bitmap_size := bs,
                    handicap := h\<rparr>],
              top_rated := tr\<rparr>)"

section \<open>Insertion into the edge index\<close>

text \<open>The loop \<^verbatim>\<open>while ((class >> reps) > 1) reps++;\<close> on a byte \<open>class\<close>.\<close>

function reps_loop :: "u8 \<Rightarrow> nat \<Rightarrow> nat" where
  "reps_loop class' reps = (if drop_bit reps class' > 1 then reps_loop class' (reps + 1) else reps)"
  by pat_completeness auto
termination
proof (relation "measure (\<lambda>(class', reps). 8 - reps)")
  show "wf (measure (\<lambda>(class', reps). 8 - reps))" by simp
next
  fix class' :: u8 and reps :: nat
  assume a: "1 < drop_bit reps class'"
  have "reps < 8"
  proof (rule ccontr)
    assume "\<not> reps < 8"
    then have "drop_bit reps class' = 0"
      by (intro bit_word_eqI) (auto simp add: bit_simps dest: bit_imp_le_length)
    with a show False by simp
  qed
  then show "((class', reps + 1), (class', reps)) \<in> measure (\<lambda>(class', reps). 8 - reps)"
    by simp
qed

declare reps_loop.simps [simp del]

text \<open>The five values \<^verbatim>\<open>calibrate_case\<close> leaves on an entry, as the source copies them.\<close>

definition calibration_of :: "queue_entry \<Rightarrow> nat \<times> nat \<times> u64 \<times> nat \<times> nat" where
  "calibration_of q = (cal_failed q, exec_us q, exec_cksum q, bitmap_size q, handicap q)"

definition set_calibration :: "nat \<times> nat \<times> u64 \<times> nat \<times> nat \<Rightarrow> queue_entry \<Rightarrow> queue_entry" where
  "set_calibration c q =
     (case c of (cf, us, ck, bs, h) \<Rightarrow>
        q\<lparr>cal_failed := cf, exec_us := us, exec_cksum := ck, bitmap_size := bs, handicap := h\<rparr>)"

text \<open>
  The variables that \<^verbatim>\<open>save_to_edge_entries\<close> carries from edge to edge, with the
  state. \<open>calibrated\<close> is \<open>None\<close> while \<^verbatim>\<open>calibration_complete\<close> is false, and holds
  \<^verbatim>\<open>cal_failed, exec_us, exec_cksum, bitmap_size, handicap\<close> afterwards (they are
  uninitialised before). The pointer \<^verbatim>\<open>found\<close> is not carried: it is assigned from
  \<^verbatim>\<open>hashmap_get\<close> on the key \<^verbatim>\<open>q_entry->input_hash\<close> at each of its three assignments,
  and the map changes only right before the second and the third, so wherever the
  source reads \<^verbatim>\<open>found\<close> it is the map's current bucket for that key.
\<close>

record locals =
  cur :: afl_state
  calibrated :: "(nat \<times> nat \<times> u64 \<times> nat \<times> nat) option"
  is_duplicate :: bool
  inserted :: bool

text \<open>
  The end of both the fill and the eviction branch: copy the calibration of this
  execution onto the entry, or calibrate it if this is the first entry stored.
\<close>

definition calibrate_or_copy :: "env \<Rightarrow> locals \<Rightarrow> nat \<Rightarrow> locals" where
  "calibrate_or_copy env L q =
     (case calibrated L of
        Some c \<Rightarrow>
          L\<lparr>cur := (cur L)\<lparr>queue_buf := (queue_buf (cur L))[q := set_calibration c (queue_buf (cur L) ! q)]\<rparr>\<rparr>
      | None \<Rightarrow>
          let afl' = run_calibrate_case env (cur L) q
          in L\<lparr>cur := afl', calibrated := Some (calibration_of (queue_buf afl' ! q))\<rparr>)"

text \<open>\<^verbatim>\<open>if (!q_entry->trace_mini) fill_trace_mini_and_compressed_len(afl, q_entry);\<close>\<close>

definition ensure_trace_mini :: "env \<Rightarrow> afl_state \<Rightarrow> qref \<Rightarrow> error + afl_state" where
  "ensure_trace_mini env afl q_entry =
     (if trace_mini (deref afl q_entry) = None
      then fill_trace_mini_and_compressed_len env afl q_entry
      else Inr afl)"

text \<open>
  Registering the new queue entry \<open>new\<close> in the input-hash index (the
  \<^verbatim>\<open>if (found) ... else ...\<close> of the fill branch). The result's second component is the
  new value of \<^verbatim>\<open>is_duplicate\<close>.
\<close>

definition register_input_hash :: "afl_state \<Rightarrow> nat \<Rightarrow> bool \<Rightarrow> afl_state \<times> bool" where
  "register_input_hash afl new is_dup =
     (let h = input_hash (queue_buf afl ! new)
      in case queue_input_hashmap afl h of
           Some f \<Rightarrow>
             let f1 = (if inputs_count f = allocated_inputs f
                       then f\<lparr>allocated_inputs := 2 * allocated_inputs f\<rparr> else f);
                 f2 = f1\<lparr>inputs := inputs f1 @ [new]\<rparr>;
                 d = (if inputs_count f2 \<ge> 1 then inputs_count f2 - 1 else 0)
             in (afl\<lparr>queue_buf := set_duplicates (inputs f2) d (queue_buf afl),
                     queue_input_hashmap := (queue_input_hashmap afl)(h \<mapsto> f2)\<rparr>, is_dup)
         | None \<Rightarrow>
             (afl\<lparr>queue_input_hashmap := (queue_input_hashmap afl)
                     (h \<mapsto> \<lparr>hash = h, inputs = [new], allocated_inputs = 8\<rparr>)\<rparr>, True))"

text \<open>
  The fill branch from \<^verbatim>\<open>get_filename\<close> to its \<^verbatim>\<open>continue\<close>: write the file (\<^verbatim>\<open>O_EXCL\<close>
  fails when it exists), add the queue entry, give it the candidate's bytes, hash and
  minimised trace, register it, append it to the cell at \<open>pos\<close>, rescore the cell,
  calibrate.
\<close>

definition store_new_entry :: "env \<Rightarrow> nat \<Rightarrow> qref \<Rightarrow> locals \<Rightarrow> nat \<Rightarrow> error + locals" where
  "store_new_entry env new_bits q_entry L pos =
     (let afl0 = cur L;
          this_edge = edge_entries afl0 ! pos;
          queue_fname = get_filename env afl0 (exec_cksum (deref afl0 q_entry)) this_edge
      in if files afl0 queue_fname \<noteq> None then Inl (PFATAL ''Unable to create'')
         else
           let afl1 = afl0\<lparr>files := (files afl0)(queue_fname \<mapsto> testcase_buf (deref afl0 q_entry))\<rparr>;
               afl2 = add_to_queue afl1 queue_fname (len (deref afl1 q_entry)) 0
                        (entry_count this_edge) 0 new_bits;
               new = queued_paths afl2 - 1;
               new1 = (queue_buf afl2 ! new)
                        \<lparr>testcase_buf := take (len (queue_buf afl2 ! new)) (testcase_buf (deref afl2 q_entry)),
                         exec_cksum := 0,
                         input_hash := input_hash (deref afl2 q_entry),
                         trace_mini := Some (replicate (map_size (fsrv afl2) div 8) 0)\<rparr>;
               afl3 = afl2\<lparr>queue_buf := (queue_buf afl2)[new := new1]\<rparr>
           in case ensure_trace_mini env afl3 q_entry of
                Inl e \<Rightarrow> Inl e
              | Inr afl4 \<Rightarrow>
                  (case trace_mini (deref afl4 q_entry) of
                     None \<Rightarrow> Inl NullPointerDereference
                   | Some tm \<Rightarrow>
                       let n8 = map_size (fsrv afl4) div 8;
                           afl5 = afl4\<lparr>queue_buf := (queue_buf afl4)
                                    [new := (queue_buf afl4 ! new)\<lparr>trace_mini := Some (take n8 tm)\<rparr>]\<rparr>;
                           (afl6, dup') = register_input_hash afl5 new (is_duplicate L);
                           cell = (edge_entries afl6 ! pos)\<lparr>entries := entries (edge_entries afl6 ! pos) @ [new]\<rparr>;
                           afl7 = afl6\<lparr>edge_entries := (edge_entries afl6)[pos := cell],
                                       queue_buf := (queue_buf afl6)
                                         [new := (queue_buf afl6 ! new)\<lparr>edge_entry := Some pos\<rparr>]\<rparr>;
                           (ncd, afl8) = calc_NCDm env afl7 (map InQueue (entries cell));
                           afl9 = afl8\<lparr>edge_entries := (edge_entries afl8)
                                    [pos := (edge_entries afl8 ! pos)\<lparr>normalised_compression_dist := ncd\<rparr>]\<rparr>
                       in Inr (calibrate_or_copy env
                                 (L\<lparr>cur := afl9, is_duplicate := dup', inserted := True\<rparr>) new)))"

text \<open>
  \<^verbatim>\<open>swap_in_candidate(afl, evictee, new)\<close>: move the evictee between hash buckets, give
  it the candidate's bytes, compressed length and minimised trace (a \<^verbatim>\<open>memcpy\<close> of
  \<^verbatim>\<open>map_size >> 3\<close> bytes between two buffers that must exist), rewrite its file
  (\<^verbatim>\<open>open\<close> without \<^verbatim>\<open>O_CREAT\<close> fails when the file is missing) and rename it.
\<close>

definition swap_in_candidate :: "env \<Rightarrow> afl_state \<Rightarrow> nat \<Rightarrow> qref \<Rightarrow> error + afl_state" where
  "swap_in_candidate env afl evictee new =
     (case move_queue_entry_to_correct_input_hash afl evictee new of
        Inl e \<Rightarrow> Inl e
      | Inr afl1 \<Rightarrow>
          (case (trace_mini (queue_buf afl1 ! evictee), trace_mini (deref afl1 new)) of
             (Some dst, Some src) \<Rightarrow>
               let n8 = map_size (fsrv afl1) div 8;
                   e1 = (queue_buf afl1 ! evictee)
                          \<lparr>testcase_buf := testcase_buf (deref afl1 new),
                           compressed_len := compressed_len (deref afl1 new),
                           trace_mini := Some (take n8 src @ drop n8 dst)\<rparr>
               in if files afl1 (fname e1) = None then Inl (FATAL ''Unable to open'')
                  else
                    (case updated_filename env afl1 (fname e1) of
                       None \<Rightarrow> Inl (FATAL ''Failed to find op: in fname'')
                     | Some newFilename \<Rightarrow>
                         Inr (afl1\<lparr>files := ((files afl1)(fname e1 := None))
                                              (newFilename \<mapsto> testcase_buf e1),
                                   queue_buf := (queue_buf afl1)
                                              [evictee := e1\<lparr>fname := newFilename\<rparr>]\<rparr>))
           | _ \<Rightarrow> Inl NullPointerDereference))"

text \<open>
  The search of the favored block for one edge \<open>i\<close>: over the eight cells of the edge
  and their entries, the entry with the strictly least \<^verbatim>\<open>get_fav_factor\<close>, starting from
  \<^verbatim>\<open>UINT64_MAX\<close> and no entry.
\<close>

definition best_fav_entry :: "env \<Rightarrow> afl_state \<Rightarrow> nat \<Rightarrow> nat option" where
  "best_fav_entry env afl i =
     snd (foldl (\<lambda>(best_fav_score, best_entry) e.
                   let fav_score = get_fav_factor env afl e
                   in if fav_score < best_fav_score then (fav_score, Some e)
                      else (best_fav_score, best_entry))
                (18446744073709551615, None)
                (concat (map (\<lambda>reps. entries (edge_entries afl ! (8 * i + reps))) [0..<8])))"

text \<open>
  The block \<^verbatim>\<open>if (unlikely(evictee->favored)) { ... }\<close>: for every edge whose
  \<^verbatim>\<open>top_rated\<close> is the evictee, hand the edge to the best entry of its cells, or give
  the evictee its flag back when there is none.
\<close>

definition refavor_step :: "env \<Rightarrow> nat \<Rightarrow> afl_state \<Rightarrow> nat \<Rightarrow> afl_state" where
  "refavor_step env evictee afl i =
     (if top_rated afl ! i = Some evictee
      then (case best_fav_entry env afl i of
              Some best_entry \<Rightarrow>
                let afl1 = afl\<lparr>top_rated := (top_rated afl)[i := None]\<rparr>;
                    afl2 = afl1\<lparr>top_rated := update_bitmap_score env afl1 best_entry\<rparr>
                in if \<not> was_fuzzed (queue_buf afl2 ! best_entry)
                   then afl2\<lparr>queue_buf := (queue_buf afl2)
                          [best_entry := (queue_buf afl2 ! best_entry)
                             \<lparr>fuzz_level := fuzz_level (queue_buf afl2 ! evictee),
                              was_fuzzed := was_fuzzed (queue_buf afl2 ! evictee)\<rparr>]\<rparr>
                   else afl2
            | None \<Rightarrow>
                afl\<lparr>queue_buf := (queue_buf afl)
                       [evictee := (queue_buf afl ! evictee)\<lparr>favored := True\<rparr>]\<rparr>)
      else afl)"

definition refavor :: "env \<Rightarrow> afl_state \<Rightarrow> nat \<Rightarrow> afl_state" where
  "refavor env afl evictee =
     (if favored (queue_buf afl ! evictee)
      then foldl (refavor_step env evictee)
                 (afl\<lparr>queue_buf := (queue_buf afl)
                         [evictee := (queue_buf afl ! evictee)\<lparr>favored := False\<rparr>]\<rparr>)
                 [0..<map_size (fsrv afl)]
      else afl)"

text \<open>
  The committed eviction, from \<^verbatim>\<open>struct queue_entry *evictee = ...\<close> to the end of the
  loop body; \<open>evictionCandidate\<close> is an index into the cell at \<open>pos\<close>.
\<close>

definition evict :: "env \<Rightarrow> qref \<Rightarrow> locals \<Rightarrow> nat \<Rightarrow> nat \<Rightarrow> error + locals" where
  "evict env q_entry L pos evictionCandidate =
     (case ensure_trace_mini env (cur L) q_entry of
        Inl e \<Rightarrow> Inl e
      | Inr afl1 \<Rightarrow>
          let evictee = entries (edge_entries afl1 ! pos) ! evictionCandidate
          in case swap_in_candidate env afl1 evictee q_entry of
               Inl e \<Rightarrow> Inl e
             | Inr afl2 \<Rightarrow>
                 let afl3 = afl2\<lparr>queue_buf := (queue_buf afl2)
                              [evictee := (queue_buf afl2 ! evictee)
                                 \<lparr>exec_cksum := 0, input_hash := input_hash (deref afl2 q_entry)\<rparr>]\<rparr>;
                     afl4 = afl3\<lparr>edge_entries := (edge_entries afl3)
                              [pos := (edge_entries afl3 ! pos)
                                 \<lparr>replacement_count := replacement_count (edge_entries afl3 ! pos) + 1\<rparr>]\<rparr>;
                     (ncd, afl5) = calc_NCDm env afl4 (map InQueue (entries (edge_entries afl4 ! pos)));
                     afl6 = afl5\<lparr>edge_entries := (edge_entries afl5)
                              [pos := (edge_entries afl5 ! pos)\<lparr>normalised_compression_dist := ncd\<rparr>]\<rparr>;
                     afl7 = refavor env afl6 evictee;
                     L1 = calibrate_or_copy env (L\<lparr>cur := afl7, is_duplicate := True\<rparr>) evictee
                 in Inr (L1\<lparr>inserted := True\<rparr>))"

text \<open>The rate limit \<^verbatim>\<open>should_calc_NCD\<close> on a cell's hit count.\<close>

definition should_calc_NCD :: "nat \<Rightarrow> bool" where
  "should_calc_NCD hc =
     (hc \<le> 10 \<or> (hc \<le> 100 \<and> hc mod 10 = 0) \<or> (hc \<le> 10000 \<and> hc mod 100 = 0)
      \<or> hc mod 1000 = 0)"

text \<open>
  The saturated branch, after the test of \<^verbatim>\<open>is_duplicate\<close>: the first entry of the cell
  with \<^verbatim>\<open>duplicates > 0\<close> is evicted; without one, and when the rate limit allows,
  \<^verbatim>\<open>find_eviction_candidate\<close> decides, and \<open>-1\<close> means \<^verbatim>\<open>continue\<close>.
\<close>

definition saturated_cell :: "env \<Rightarrow> qref \<Rightarrow> locals \<Rightarrow> nat \<Rightarrow> error + locals" where
  "saturated_cell env q_entry L pos =
     (let afl0 = cur L;
          this_edge = edge_entries afl0 ! pos
      in case find (\<lambda>i. duplicates (queue_buf afl0 ! (entries this_edge ! i)) \<noteq> 0)
                   [0..<entry_count this_edge] of
           Some i \<Rightarrow> evict env q_entry L pos i
         | None \<Rightarrow>
             if \<not> should_calc_NCD (hit_count this_edge) then Inr L
             else
               (case ensure_trace_mini env afl0 q_entry of
                  Inl e \<Rightarrow> Inl e
                | Inr afl1 \<Rightarrow>
                    (case find_eviction_candidate env afl1
                            (normalised_compression_dist (edge_entries afl1 ! pos))
                            (map InQueue (entries (edge_entries afl1 ! pos))) q_entry False of
                       Inl e \<Rightarrow> Inl e
                     | Inr (evictionCandidate, afl2) \<Rightarrow>
                         if evictionCandidate = - 1 then Inr (L\<lparr>cur := afl2\<rparr>)
                         else evict env q_entry (L\<lparr>cur := afl2\<rparr>) pos (nat evictionCandidate))))"

text \<open>
  The body of \<^verbatim>\<open>for (int i = 0; i < 8; i++)\<close> for the byte \<open>b = mem8[i]\<close> of edge
  \<open>edge = edgeNum + i\<close>. A cell index outside \<^verbatim>\<open>afl->edge_entries\<close> is an access out of
  bounds.
\<close>

definition process_edge :: "env \<Rightarrow> nat \<Rightarrow> qref \<Rightarrow> locals \<Rightarrow> nat \<Rightarrow> u8 \<Rightarrow> error + locals" where
  "process_edge env new_bits q_entry L edge b =
     (if b = 0 then Inr L
      else
        let reps = reps_loop (count_class_lookup8 b) 0;
            edge_entries_pos = 8 * edge + reps;
            afl0 = cur L
        in if edge_entries_pos \<ge> length (edge_entries afl0) then Inl OutOfBounds
           else
             let cell1 = (edge_entries afl0 ! edge_entries_pos)
                           \<lparr>hit_count := hit_count (edge_entries afl0 ! edge_entries_pos) + 1\<rparr>;
                 afl1 = afl0\<lparr>edge_entries := (edge_entries afl0)[edge_entries_pos := cell1]\<rparr>;
                 match = (\<exists>e \<in> set (entries cell1).
                            input_hash (queue_buf afl1 ! e) = input_hash (deref afl1 q_entry))
             in if match then Inr (L\<lparr>cur := afl1\<rparr>)
                else if entry_count cell1 < ncd_entries_per_edge afl1
                then
                  let afl2 = (if entry_count cell1 = 0
                              then afl1\<lparr>edge_entries := (edge_entries afl1)
                                         [edge_entries_pos := cell1\<lparr>discovery_execs := total_execs (fsrv afl1)\<rparr>],
                                        pending_edge_entries := pending_edge_entries afl1 + 1,
                                        discovered_edge_entries := discovered_edge_entries afl1 + 1\<rparr>
                              else afl1)
                  in if entry_count cell1 > 0 \<and> is_duplicate L then Inr (L\<lparr>cur := afl2\<rparr>)
                     else store_new_entry env new_bits q_entry (L\<lparr>cur := afl2\<rparr>) edge_entries_pos
                else if is_duplicate L then Inr (L\<lparr>cur := afl1\<rparr>)
                else saturated_cell env q_entry (L\<lparr>cur := afl1\<rparr>) edge_entries_pos)"

text \<open>
  One pass of \<^verbatim>\<open>while (i--)\<close>: the word at index \<open>w\<close> is copied to \<^verbatim>\<open>mem8\<close> and its
  eight bytes are processed in order; a zero word is skipped as a whole.
\<close>

definition process_word :: "env \<Rightarrow> nat \<Rightarrow> qref \<Rightarrow> error + locals \<Rightarrow> nat \<Rightarrow> error + locals" where
  "process_word env new_bits q_entry st w =
     (case st of
        Inl e \<Rightarrow> Inl e
      | Inr L \<Rightarrow>
          let mem8 = map (\<lambda>i. trace_bits (fsrv (cur L)) ! (8 * w + i)) [0..<8]
          in if \<forall>b \<in> set mem8. b = 0 then Inr L
             else foldl (\<lambda>st' i. case st' of
                                    Inl e \<Rightarrow> Inl e
                                  | Inr L' \<Rightarrow> process_edge env new_bits q_entry L' (8 * w + i) (mem8 ! i))
                        (Inr L) [0..<8])"

text \<open>
  \<^verbatim>\<open>save_to_edge_entries(afl, q_entry, new_bits)\<close>. Returns \<^verbatim>\<open>inserted\<close> and the state.
  The final \<^verbatim>\<open>ck_free(q_entry->trace_mini)\<close> leaves the field dangling; the caller's
  entry is dead after the call, and the field is reset to null here.
\<close>

definition save_to_edge_entries ::
  "env \<Rightarrow> afl_state \<Rightarrow> qref \<Rightarrow> nat \<Rightarrow> error + bool \<times> afl_state" where
  "save_to_edge_entries env afl q_entry new_bits =
     (if edge_entry_count afl = 0 then Inr (False, afl)
      else
        let hash' = hash64 env (testcase_buf (deref afl q_entry));
            afl0 = assign afl q_entry ((deref afl q_entry)\<lparr>input_hash := hash'\<rparr>);
            L0 = \<lparr>cur = afl0, calibrated = None,
                  is_duplicate = (queue_input_hashmap afl0 hash' \<noteq> None), inserted = False\<rparr>
        in case foldl (process_word env new_bits q_entry) (Inr L0)
                      [0..<map_size (fsrv afl0) div 8] of
             Inl e \<Rightarrow> Inl e
           | Inr L \<Rightarrow>
               Inr (inserted L,
                    assign (cur L) q_entry ((deref (cur L) q_entry)\<lparr>trace_mini := None\<rparr>)))"

section \<open>Predicates used in the statements\<close>

text \<open>
  The scratch is consistent when it is unallocated, or \<^verbatim>\<open>maxCompressedLen\<close> is the LZ4
  bound of \<^verbatim>\<open>prevLongest\<close>: the only two states the two growth blocks leave it in.
\<close>

definition scratch_ok :: "env \<Rightarrow> afl_state \<Rightarrow> bool" where
  "scratch_ok env afl =
     ((prevLongest afl = 0 \<and> maxCompressedLen afl = 0)
      \<or> maxCompressedLen afl = LZ4_compressBound env (prevLongest afl))"

text \<open>A pointer is valid when it is the stack entry or an index below \<^verbatim>\<open>queued_paths\<close>.\<close>

fun valid_ref :: "afl_state \<Rightarrow> qref \<Rightarrow> bool" where
  "valid_ref afl (InQueue i) = (i < queued_paths afl)"
| "valid_ref afl OnStack = True"

text \<open>
  The compressed size of the entry at \<open>r\<close> is known: its \<^verbatim>\<open>compressed_len\<close> is the
  compressed size \<open>C\<close> of its test case, or is still 0 while the scratch has room to
  compress the test case; the size fits the 32-bit field.
\<close>

definition size_known :: "(u8 list \<Rightarrow> nat) \<Rightarrow> afl_state \<Rightarrow> qref \<Rightarrow> bool" where
  "size_known C afl r =
     (valid_ref afl r
      \<and> C (testcase_buf (deref afl r)) \<le> 4294967295
      \<and> (compressed_len (deref afl r) = C (testcase_buf (deref afl r))
         \<or> (compressed_len (deref afl r) = 0
            \<and> C (testcase_buf (deref afl r)) \<le> maxCompressedLen afl)))"

text \<open>
  The state with every cached compressed length and the scratch sizes blanked: two
  states with the same image differ at most in those caches.
\<close>

definition forget_sizes :: "afl_state \<Rightarrow> afl_state" where
  "forget_sizes afl =
     afl\<lparr>queue_buf := map (\<lambda>q. q\<lparr>compressed_len := 0\<rparr>) (queue_buf afl),
         stack_entry := (stack_entry afl)\<lparr>compressed_len := 0\<rparr>,
         prevLongest := 0, maxCompressedLen := 0\<rparr>"

text \<open>
  The effect of the first loop of \<^verbatim>\<open>calc_NCDm\<close> on one entry whose size is known: its
  \<^verbatim>\<open>compressed_len\<close> is the compressed size of its test case afterwards.
\<close>

definition learn :: "(u8 list \<Rightarrow> nat) \<Rightarrow> afl_state \<Rightarrow> qref \<Rightarrow> afl_state" where
  "learn C afl r = assign afl r ((deref afl r)\<lparr>compressed_len := C (testcase_buf (deref afl r))\<rparr>)"

section \<open>Concrete states for running the theorems\<close>

text \<open>
  A state with two queue entries, the first with its compressed size cached, the
  second not yet compressed, a scratch of 16 bytes, and a five-byte candidate on the
  stack.
\<close>

definition example_afl :: afl_state where
  "example_afl =
     (initial_afl 8 2 (replicate 8 0))
       \<lparr>queue_buf := [zeroed_queue_entry\<lparr>testcase_buf := [1, 1, 2], compressed_len := 3\<rparr>,
                     zeroed_queue_entry\<lparr>testcase_buf := [3]\<rparr>],
        prevLongest := 16, maxCompressedLen := 32,
        stack_entry := zeroed_queue_entry\<lparr>testcase_buf := [7, 7, 7, 8, 9]\<rparr>\<rparr>"







text \<open>
  The diversity score of the candidate set for index \<open>i\<close>: the cell's entries without
  entry \<open>i\<close>, plus the new entry. \<open>candidate_score\<close> is the single-precision score that
  the source computes for it, \<open>exact_candidate_score\<close> the specification's exact quotient.
\<close>

definition candidate_score ::
  "(u8 list \<Rightarrow> nat) \<Rightarrow> afl_state \<Rightarrow> qref list \<Rightarrow> qref \<Rightarrow> nat \<Rightarrow> rat" where
  "candidate_score C afl existing new i =
     float_NCDm C (map (\<lambda>r. testcase_buf (deref afl r)) (leave_out existing i @ [new]))"

definition exact_candidate_score ::
  "(u8 list \<Rightarrow> nat) \<Rightarrow> afl_state \<Rightarrow> qref list \<Rightarrow> qref \<Rightarrow> nat \<Rightarrow> rat" where
  "exact_candidate_score C afl existing new i =
     spec_NCDm C (map (\<lambda>r. testcase_buf (deref afl r)) (leave_out existing i @ [new]))"

text \<open>
  The variables of \<^verbatim>\<open>save_to_edge_entries\<close> in front of a saturated cell: the two
  entries of the example state fill cell 3, whose recorded score is \<open>d\<close> and whose hit
  count is 5, and the candidate on the stack has its minimised trace.
\<close>

definition saturated_example :: "rat \<Rightarrow> locals" where
  "saturated_example d =
     \<lparr>cur = example_afl
        \<lparr>edge_entries := (edge_entries example_afl)
           [3 := (zeroed_edge_entry 0 3)
                   \<lparr>hit_count := 5, entries := [0, 1], normalised_compression_dist := d\<rparr>],
         stack_entry := (stack_entry example_afl)\<lparr>trace_mini := Some [0]\<rparr>\<rparr>,
      calibrated = None, is_duplicate = False, inserted = False\<rparr>"

section \<open>Keeping an interesting input\<close>

text \<open>
  The fault codes of \<^verbatim>\<open>forkserver.h\<close>, in the order of its enumeration.
\<close>

definition FSRV_RUN_OK :: u8 where "FSRV_RUN_OK = 0"
definition FSRV_RUN_TMOUT :: u8 where "FSRV_RUN_TMOUT = 1"
definition FSRV_RUN_CRASH :: u8 where "FSRV_RUN_CRASH = 2"
definition FSRV_RUN_ERROR :: u8 where "FSRV_RUN_ERROR = 3"

text \<open>
  An element of the global map \<^verbatim>\<open>hashfuzzFoundPartitions\<close>, keyed by its \<^verbatim>\<open>checksum\<close>.
\<close>

record path_partitions =
  foundPartitions :: "32 word"
  foundPartitionsCount :: u8

text \<open>
  The fuzzer state that \<^verbatim>\<open>save_if_interesting\<close> uses: \<open>core\<close> holds the fields of
  \<^verbatim>\<open>afl_state_t\<close> gathered in \<open>afl_state\<close> above, the other fields are those that only
  this function and its helpers touch. \<open>n_fuzz_entry\<close> is the field of that name of the
  queue entries, by queue index; \<open>infoexec\<close> tells whether \<^verbatim>\<open>afl->infoexec\<close> is set;
  \<open>last_run_output_hash_class\<close> and \<open>exec_tmout\<close> are fields of \<^verbatim>\<open>afl->fsrv\<close>.
  \<open>queue_top\<close> is null or the index of a queue entry.
\<close>

record afl_run =
  core :: afl_state
  hashfuzzFoundPartitions :: "u64 \<Rightarrow> path_partitions option"
  schedule :: nat
  n_fuzz :: "nat \<Rightarrow> nat"
  n_fuzz_entry :: "nat \<Rightarrow> nat"
  crash_mode :: u8
  ncd_based_queue :: bool
  discovering_q_entries :: nat
  hashfuzz_enabled :: bool
  hashfuzz_is_input_based :: bool
  hashfuzz_partitions :: nat
  last_run_output_hash_class :: u8
  hashfuzz_mimic_transformation :: bool
  hashfuzz_discovered_partitions :: u64
  queue_top :: "nat option"
  queued_with_cov :: nat
  q_testcase_max_cache_size :: nat
  bitmap_changed :: bool
  total_crashes :: nat
  total_tmouts :: nat
  unique_hangs :: nat
  unique_tmouts :: nat
  unique_crashes :: nat
  non_instrumented_mode :: bool
  virgin_tmout :: "u8 list"
  virgin_crash :: "u8 list"
  exec_tmout :: nat
  hang_tmout :: nat
  stop_soon :: bool
  last_hang_time :: nat
  last_crash_time :: nat
  last_crash_execs :: nat
  infoexec :: bool

text \<open>
  What \<^verbatim>\<open>save_if_interesting\<close> and its helpers call and this file does not define, and
  the constants of \<^verbatim>\<open>config.h\<close> and \<^verbatim>\<open>afl-fuzz.h\<close> they compare with.
  \<open>skim renv virgin trace\<close>, \<open>classify_counts\<close> and \<open>simplify_trace\<close> (on the trace bytes)
  and \<open>discover_word renv ret current virgin\<close> (on the eight bytes of one word of the
  trace and of the virgin map, returning the new \<open>ret\<close> and virgin bytes) are the
  routines of \<^verbatim>\<open>coverage-64.h\<close>. The three file names are built with \<^verbatim>\<open>describe_op\<close>
  from the mutation stage. \<open>calibrate_fault\<close> is the value that \<^verbatim>\<open>calibrate_case\<close>
  returns; \<open>rerun_target\<close> is \<^verbatim>\<open>write_to_testcase\<close> followed by \<^verbatim>\<open>fuzz_run_target\<close> with
  the hang timeout, returning the new fault.
\<close>

record run_env =
  FAST :: nat
  RARE :: nat
  N_FUZZ_SIZE :: nat
  KEEP_UNIQUE_HANG :: nat
  KEEP_UNIQUE_CRASH :: nat
  skim :: "u8 list \<Rightarrow> u8 list \<Rightarrow> bool"
  classify_counts :: "u8 list \<Rightarrow> u8 list"
  simplify_trace :: "u8 list \<Rightarrow> u8 list"
  discover_word :: "u8 \<Rightarrow> u8 list \<Rightarrow> u8 list \<Rightarrow> u8 \<times> u8 list"
  hashfuzzClassify :: "u8 list \<Rightarrow> nat \<Rightarrow> u8"
  queue_file_name :: "afl_run \<Rightarrow> u64 \<Rightarrow> u8 \<Rightarrow> bool \<Rightarrow> string"
  hang_file_name :: "afl_run \<Rightarrow> string"
  crash_file_name :: "afl_run \<Rightarrow> string"
  calibrate_fault :: "afl_state \<Rightarrow> nat \<Rightarrow> u8"
  queue_testcase_store_mem :: "afl_run \<Rightarrow> nat \<Rightarrow> u8 list \<Rightarrow> afl_run"
  rerun_target :: "afl_run \<Rightarrow> u8 list \<Rightarrow> u8 \<times> afl_run"
  write_crash_readme :: "afl_run \<Rightarrow> afl_run"
  get_cur_time :: "afl_run \<Rightarrow> nat"

text \<open>
  The virgin map a caller passes to \<^verbatim>\<open>has_new_bits\<close>: \<^verbatim>\<open>afl->virgin_bits\<close>,
  \<^verbatim>\<open>afl->virgin_tmout\<close> or \<^verbatim>\<open>afl->virgin_crash\<close>.
\<close>

datatype virgin_map = Virgin_bits | Virgin_tmout | Virgin_crash

fun get_virgin :: "afl_run \<Rightarrow> virgin_map \<Rightarrow> u8 list" where
  "get_virgin a Virgin_bits = virgin_bits (core a)"
| "get_virgin a Virgin_tmout = virgin_tmout a"
| "get_virgin a Virgin_crash = virgin_crash a"

fun set_virgin :: "afl_run \<Rightarrow> virgin_map \<Rightarrow> u8 list \<Rightarrow> afl_run" where
  "set_virgin a Virgin_bits v = a\<lparr>core := (core a)\<lparr>virgin_bits := v\<rparr>\<rparr>"
| "set_virgin a Virgin_tmout v = a\<lparr>virgin_tmout := v\<rparr>"
| "set_virgin a Virgin_crash v = a\<lparr>virgin_crash := v\<rparr>"

definition set_trace :: "afl_run \<Rightarrow> u8 list \<Rightarrow> afl_run" where
  "set_trace a t = a\<lparr>core := (core a)\<lparr>fsrv := (fsrv (core a))\<lparr>trace_bits := t\<rparr>\<rparr>\<rparr>"

text \<open>
  \<^verbatim>\<open>has_new_bits(afl, virgin_map)\<close>, 64-bit flavour: for each of the \<^verbatim>\<open>map_size >> 3\<close>
  words of the trace that is not zero, \<^verbatim>\<open>discover_word\<close> on that word and the virgin
  word; \<^verbatim>\<open>bitmap_changed\<close> is set when the result is not 0 and the map is
  \<^verbatim>\<open>afl->virgin_bits\<close>. Both buffers have \<^verbatim>\<open>map_size\<close> bytes.
\<close>

definition has_new_bits :: "run_env \<Rightarrow> afl_run \<Rightarrow> virgin_map \<Rightarrow> u8 \<times> afl_run" where
  "has_new_bits renv a vm =
     (let trace = trace_bits (fsrv (core a));
          (ret, v) =
            foldl (\<lambda>(ret, v) i.
                     let current = take 8 (drop (8 * i) trace)
                     in if list_ex (\<lambda>b. b \<noteq> 0) current
                        then (case discover_word renv ret current (take 8 (drop (8 * i) v)) of
                                (ret', w) \<Rightarrow> (ret', take (8 * i) v @ w @ drop (8 * i + 8) v))
                        else (ret, v))
                  (0, get_virgin a vm) [0..<map_size (fsrv (core a)) div 8];
          a1 = set_virgin a vm v
      in (ret, if ret \<noteq> 0 \<and> vm = Virgin_bits then a1\<lparr>bitmap_changed := True\<rparr> else a1))"

text \<open>
  \<^verbatim>\<open>has_new_bits_unclassified(afl, virgin_map)\<close>: 0 with the trace as it is when
  \<^verbatim>\<open>skim\<close> finds nothing, otherwise \<^verbatim>\<open>classify_counts\<close> and \<^verbatim>\<open>has_new_bits\<close>.
\<close>

definition has_new_bits_unclassified :: "run_env \<Rightarrow> afl_run \<Rightarrow> virgin_map \<Rightarrow> u8 \<times> afl_run" where
  "has_new_bits_unclassified renv a vm =
     (if \<not> skim renv (get_virgin a vm) (trace_bits (fsrv (core a))) then (0, a)
      else has_new_bits renv (set_trace a (classify_counts renv (trace_bits (fsrv (core a))))) vm)"

text \<open>
  \<^verbatim>\<open>check_if_new_partition(checksum, partition)\<close>. \<^verbatim>\<open>1 << partition\<close> is a shift of the
  \<^verbatim>\<open>int\<close> 1, undefined from 31 bits on. The \<^verbatim>\<open>u8\<close> count is returned as an \<^verbatim>\<open>s8\<close>.
\<close>

definition check_if_new_partition :: "afl_run \<Rightarrow> u64 \<Rightarrow> u8 \<Rightarrow> error + int \<times> afl_run" where
  "check_if_new_partition a checksum part =
     (if unat part \<ge> 31 then Inl UndefinedShift
      else
        let partitionBitmap = (push_bit (unat part) 1 :: 32 word)
        in case hashfuzzFoundPartitions a checksum of
             Some found \<Rightarrow>
               if foundPartitions found AND partitionBitmap \<noteq> 0 then Inr (- 1, a)
               else
                 let foundAlready = foundPartitionsCount found
                 in Inr (sint foundAlready,
                         a\<lparr>hashfuzzFoundPartitions := (hashfuzzFoundPartitions a)
                              (checksum \<mapsto> found\<lparr>foundPartitions := foundPartitions found OR partitionBitmap,
                                                  foundPartitionsCount := foundPartitionsCount found + 1\<rparr>)\<rparr>)
           | None \<Rightarrow>
               Inr (0, a\<lparr>hashfuzzFoundPartitions := (hashfuzzFoundPartitions a)
                            (checksum \<mapsto> \<lparr>foundPartitions = partitionBitmap,
                                             foundPartitionsCount = 1\<rparr>)\<rparr>))"

text \<open>
  The path-frequency update at the top of \<^verbatim>\<open>save_if_interesting\<close>: under the schedules
  \<^verbatim>\<open>FAST\<close> to \<^verbatim>\<open>RARE\<close>, hash the trace and increment its \<^verbatim>\<open>n_fuzz\<close> counter unless it
  is saturated. Returns \<^verbatim>\<open>cksum\<close>, which starts as 0.
\<close>

definition count_path :: "env \<Rightarrow> run_env \<Rightarrow> afl_run \<Rightarrow> u64 \<times> afl_run" where
  "count_path env renv a =
     (if FAST renv \<le> schedule a \<and> schedule a \<le> RARE renv
      then
        let cksum = hash64 env (trace_bits (fsrv (core a)));
            k = unat cksum mod N_FUZZ_SIZE renv
        in (cksum, if n_fuzz a k < 4294967295 then a\<lparr>n_fuzz := (n_fuzz a)(k := n_fuzz a k + 1)\<rparr> else a)
      else (0, a))"

text \<open>
  The block \<^verbatim>\<open>if (afl->hashfuzz_enabled) { ... }\<close>, on \<^verbatim>\<open>interesting\<close> and \<^verbatim>\<open>cksum\<close>;
  returns \<^verbatim>\<open>hashfuzzClass\<close>, \<^verbatim>\<open>new_partition\<close>, \<^verbatim>\<open>interesting\<close>, \<^verbatim>\<open>cksum\<close> and the state.
  \<^verbatim>\<open>1 << hashfuzzClass\<close> is again a shift of the \<^verbatim>\<open>int\<close> 1.
\<close>

definition hashfuzz_step ::
  "env \<Rightarrow> run_env \<Rightarrow> afl_run \<Rightarrow> u8 list \<Rightarrow> bool \<Rightarrow> u64
     \<Rightarrow> error + u8 \<times> int \<times> bool \<times> u64 \<times> afl_run" where
  "hashfuzz_step env renv a mem interesting cksum =
     (if \<not> hashfuzz_enabled a then Inr (0, 0, interesting, cksum, a)
      else
        let hashfuzzClass = (if hashfuzz_is_input_based a
                             then hashfuzzClassify renv mem (hashfuzz_partitions a)
                             else last_run_output_hash_class a)
        in if hashfuzz_mimic_transformation a
           then
             (if unat hashfuzzClass \<ge> 31 then Inl UndefinedShift
              else
                let partitionBit = (push_bit (unat hashfuzzClass) 1 :: u64)
                in if partitionBit AND hashfuzz_discovered_partitions a = 0
                   then Inr (hashfuzzClass, 0, True, cksum,
                             a\<lparr>hashfuzz_discovered_partitions :=
                                  hashfuzz_discovered_partitions a OR partitionBit\<rparr>)
                   else Inr (hashfuzzClass, 0, interesting, cksum, a))
           else
             let cksum' = hash64 env (trace_bits (fsrv (core a)))
             in if interesting \<or> hashfuzzFoundPartitions a cksum' \<noteq> None
                then (case check_if_new_partition a cksum' hashfuzzClass of
                        Inl e \<Rightarrow> Inl e
                      | Inr (new_partition, a') \<Rightarrow>
                          Inr (hashfuzzClass, new_partition, interesting \<or> new_partition \<ge> 0,
                               cksum', a'))
                else Inr (hashfuzzClass, 0, interesting, cksum', a))"

text \<open>
  The block \<^verbatim>\<open>if (likely(afl->ncd_based_queue)) { ... }\<close>, on \<^verbatim>\<open>new_bits\<close> and \<^verbatim>\<open>cksum\<close>;
  returns \<^verbatim>\<open>cksum\<close> and the state. The candidate \<^verbatim>\<open>struct queue_entry new\<close> is the stack
  entry of the state, initialised with the input and the checksum and zero elsewhere.
  \<^verbatim>\<open>add_to_queue\<close> makes the entry it appends \<^verbatim>\<open>queue_top\<close>, so after
  \<^verbatim>\<open>save_to_edge_entries\<close> the top is the last entry if the queue has grown.
\<close>

definition ncd_queue_step ::
  "env \<Rightarrow> afl_run \<Rightarrow> u8 list \<Rightarrow> u8 \<Rightarrow> u64 \<Rightarrow> error + u64 \<times> afl_run" where
  "ncd_queue_step env a1 mem new_bits cksum0 =
     (if ncd_based_queue a1
      then
        let a2 = (if new_bits \<noteq> 0
                  then a1\<lparr>discovering_q_entries := discovering_q_entries a1 + 1\<rparr> else a1);
            cksum = hash64 env (trace_bits (fsrv (core a2)));
            new = zeroed_queue_entry\<lparr>testcase_buf := mem, exec_cksum := cksum\<rparr>
        in case save_to_edge_entries env ((core a2)\<lparr>stack_entry := new\<rparr>) OnStack
                  (unat new_bits) of
             Inl e \<Rightarrow> Inl e
           | Inr (ins, c) \<Rightarrow>
               Inr (cksum,
                    a2\<lparr>core := c,
                       queue_top := (if queued_paths (core a2) < queued_paths c
                                     then Some (queued_paths c - 1) else queue_top a2)\<rparr>)
      else Inr (cksum0, a1))"

text \<open>
  The block \<^verbatim>\<open>if (likely(fault == afl->crash_mode)) { ... }\<close>. Its result is \<open>Inl\<close> of
  the returned value and the state at \<^verbatim>\<open>return 0\<close>, and \<open>Inr\<close> of \<^verbatim>\<open>keeping\<close>,
  \<^verbatim>\<open>classified\<close> and the state when control leaves the block at its end.
  The local \<^verbatim>\<open>res\<close> is declared without initialiser; it is \<open>None\<close> until it is assigned,
  and reading it then is the error \<open>UninitialisedRead\<close>.
\<close>

definition queue_if_new ::
  "env \<Rightarrow> run_env \<Rightarrow> afl_run \<Rightarrow> u8 list \<Rightarrow> u64
     \<Rightarrow> error + ((nat \<times> afl_run) + (nat \<times> u8 \<times> afl_run))" where
  "queue_if_new env renv a mem cksum0 =
     (case has_new_bits_unclassified renv a Virgin_bits of (new_bits, a1) \<Rightarrow>
      case ncd_queue_step env a1 mem new_bits cksum0 of
        Inl e \<Rightarrow> Inl e
      | Inr (cksum1, a3) \<Rightarrow>
      case hashfuzz_step env renv a3 mem (new_bits \<noteq> 0) cksum1 of
        Inl e \<Rightarrow> Inl e
      | Inr (hashfuzzClass, new_partition, interesting, cksum2, a4) \<Rightarrow>
      if \<not> interesting
      then Inr (Inl (0, if crash_mode a4 \<noteq> 0
                        then a4\<lparr>total_crashes := total_crashes a4 + 1\<rparr> else a4))
      else
      case (if \<not> ncd_based_queue a4
            then
              let queue_fn = queue_file_name renv a4 cksum2 new_bits (new_partition \<ge> 0)
              in if files (core a4) queue_fn \<noteq> None then Inl (PFATAL ''Unable to create'')
                 else
                   let c1 = (core a4)\<lparr>files := (files (core a4))(queue_fn \<mapsto> mem)\<rparr>;
                       c2 = add_to_queue c1 queue_fn (length mem) 0 (unat hashfuzzClass) cksum2
                              (nat (new_partition mod 256))
                   in Inr (a4\<lparr>core := c2, queue_top := Some (queued_paths c2 - 1)\<rparr>)
            else Inr a4) of
        Inl e \<Rightarrow> Inl e
      | Inr a5 \<Rightarrow>
      case (if new_bits = 2
            then (case queue_top a5 of
                    None \<Rightarrow> Inl NullPointerDereference
                  | Some t \<Rightarrow>
                      Inr (a5\<lparr>core := (core a5)\<lparr>queue_buf := (queue_buf (core a5))
                                   [t := (queue_buf (core a5) ! t)\<lparr>has_new_cov := True\<rparr>]\<rparr>,
                              queued_with_cov := queued_with_cov a5 + 1\<rparr>))
            else Inr a5) of
        Inl e \<Rightarrow> Inl e
      | Inr a6 \<Rightarrow>
      case (if (\<not> ncd_based_queue a6 \<and> \<not> hashfuzz_enabled a6) \<or> hashfuzz_mimic_transformation a6
            then (case queue_top a6 of
                    None \<Rightarrow> Inl NullPointerDereference
                  | Some t \<Rightarrow>
                      let a7 = (if cksum2 \<noteq> 0
                                then
                                  let k = unat cksum2 mod N_FUZZ_SIZE renv
                                  in a6\<lparr>n_fuzz_entry := (n_fuzz_entry a6)(t := k),
                                        n_fuzz := (n_fuzz a6)(k := 1)\<rparr>
                                else a6);
                          cksum3 = hash64 env (trace_bits (fsrv (core a7)))
                      in Inr (a7\<lparr>core := (core a7)\<lparr>queue_buf := (queue_buf (core a7))
                                      [t := (queue_buf (core a7) ! t)\<lparr>exec_cksum := cksum3\<rparr>]\<rparr>\<rparr>))
            else Inr a6) of
        Inl e \<Rightarrow> Inl e
      | Inr a8 \<Rightarrow>
      case (if \<not> ncd_based_queue a8
            then (case queue_top a8 of
                    None \<Rightarrow> Inl NullPointerDereference
                  | Some t \<Rightarrow>
                      Inr (Some (calibrate_fault renv (core a8) t),
                           a8\<lparr>core := run_calibrate_case env (core a8) t\<rparr>))
            else Inr (None, a8)) of
        Inl e \<Rightarrow> Inl e
      | Inr (res, a9) \<Rightarrow>
      (case res of
         None \<Rightarrow> Inl UninitialisedRead
       | Some r \<Rightarrow>
           if r = FSRV_RUN_ERROR then Inl (FATAL ''Unable to execute target application'')
           else if \<not> ncd_based_queue a9 \<and> q_testcase_max_cache_size a9 \<noteq> 0
           then (case queue_top a9 of
                   None \<Rightarrow> Inl NullPointerDereference
                 | Some t \<Rightarrow> Inr (Inr (1, new_bits, queue_testcase_store_mem renv a9 t mem)))
           else Inr (Inr (1, new_bits, a9))))"

text \<open>
  The end of the function: the sample is written to a file that must not exist, and
  \<^verbatim>\<open>keeping\<close> is returned.
\<close>

definition save_sample :: "afl_run \<Rightarrow> string \<Rightarrow> u8 list \<Rightarrow> nat \<Rightarrow> error + nat \<times> afl_run" where
  "save_sample a sample_fn mem keeping =
     (if files (core a) sample_fn \<noteq> None then Inl (PFATAL ''Unable to create'')
      else Inr (keeping, a\<lparr>core := (core a)\<lparr>files := (files (core a))(sample_fn \<mapsto> mem)\<rparr>\<rparr>))"

text \<open>
  The common part of the two cases of the \<^verbatim>\<open>switch\<close>: classify the trace unless it is
  classified, simplify it, and look for new bits in the given virgin map. The result
  tells whether there are none.
\<close>

definition nothing_new ::
  "run_env \<Rightarrow> afl_run \<Rightarrow> u8 \<Rightarrow> virgin_map \<Rightarrow> bool \<times> afl_run" where
  "nothing_new renv a classified vm =
     (let b1 = (if classified = 0
                then set_trace a (classify_counts renv (trace_bits (fsrv (core a)))) else a);
          b2 = set_trace b1 (simplify_trace renv (trace_bits (fsrv (core b1))));
          (r, b3) = has_new_bits renv b2 vm
      in (r = 0, b3))"

text \<open>The case \<^verbatim>\<open>FSRV_RUN_CRASH\<close>, from the label \<^verbatim>\<open>keep_as_crash\<close>.\<close>

definition keep_as_crash ::
  "run_env \<Rightarrow> afl_run \<Rightarrow> u8 list \<Rightarrow> nat \<Rightarrow> u8 \<Rightarrow> error + nat \<times> afl_run" where
  "keep_as_crash renv a mem keeping classified =
     (let a1 = a\<lparr>total_crashes := total_crashes a + 1\<rparr>
      in if unique_crashes a1 \<ge> KEEP_UNIQUE_CRASH renv then Inr (keeping, a1)
         else
           let (stop, a2) = (if \<not> non_instrumented_mode a1
                             then nothing_new renv a1 classified Virgin_crash else (False, a1))
           in if stop then Inr (keeping, a2)
              else
                let a3 = (if unique_crashes a2 = 0 then write_crash_readme renv a2 else a2);
                    sample_fn = crash_file_name renv a3;
                    a4 = a3\<lparr>unique_crashes := unique_crashes a3 + 1\<rparr>;
                    a5 = a4\<lparr>last_crash_time := get_cur_time renv a4,
                            last_crash_execs := total_execs (fsrv (core a4))\<rparr>
                in save_sample a5 sample_fn mem keeping)"

text \<open>The end of the case \<^verbatim>\<open>FSRV_RUN_TMOUT\<close>, from the hang's file name on.\<close>

definition keep_as_hang ::
  "run_env \<Rightarrow> afl_run \<Rightarrow> u8 list \<Rightarrow> nat \<Rightarrow> error + nat \<times> afl_run" where
  "keep_as_hang renv a mem keeping =
     (let sample_fn = hang_file_name renv a;
          a1 = a\<lparr>unique_hangs := unique_hangs a + 1\<rparr>;
          a2 = a1\<lparr>last_hang_time := get_cur_time renv a1\<rparr>
      in save_sample a2 sample_fn mem keeping)"

text \<open>The statement \<^verbatim>\<open>switch (fault) { ... }\<close> and what follows it.\<close>

definition keep_fault_sample ::
  "run_env \<Rightarrow> afl_run \<Rightarrow> u8 list \<Rightarrow> u8 \<Rightarrow> nat \<Rightarrow> u8 \<Rightarrow> error + nat \<times> afl_run" where
  "keep_fault_sample renv a mem fault keeping classified =
     (if fault = FSRV_RUN_TMOUT
      then
        let a1 = a\<lparr>total_tmouts := total_tmouts a + 1\<rparr>
        in if unique_hangs a1 \<ge> KEEP_UNIQUE_HANG renv then Inr (keeping, a1)
           else
             let (stop, classified1, a2) =
                   (if \<not> non_instrumented_mode a1
                    then (case nothing_new renv a1 classified Virgin_tmout of
                            (s, b) \<Rightarrow> (s, if classified = 0 then 1 else classified, b))
                    else (False, classified, a1))
             in if stop then Inr (keeping, a2)
                else
                  let a3 = a2\<lparr>unique_tmouts := unique_tmouts a2 + 1\<rparr>
                  in if exec_tmout a3 < hang_tmout a3
                     then
                       (case rerun_target renv a3 mem of
                          (new_fault, b) \<Rightarrow>
                            let b1 = set_trace b (classify_counts renv (trace_bits (fsrv (core b))))
                            in if \<not> stop_soon b1 \<and> new_fault = FSRV_RUN_CRASH
                               then keep_as_crash renv b1 mem keeping classified1
                               else if stop_soon b1 \<or> new_fault \<noteq> FSRV_RUN_TMOUT
                               then Inr (keeping, b1)
                               else keep_as_hang renv b1 mem keeping)
                     else keep_as_hang renv a3 mem keeping
      else if fault = FSRV_RUN_CRASH then keep_as_crash renv a mem keeping classified
      else if fault = FSRV_RUN_ERROR
      then Inl (FATAL ''Unable to execute target application'')
      else Inr (keeping, a))"

text \<open>
  \<^verbatim>\<open>save_if_interesting(afl, mem, len, fault)\<close>, with \<open>len\<close> the length of \<open>mem\<close>: the
  returned value (\<^verbatim>\<open>keeping\<close>) and the state, or the abort. The trace buffer has
  \<^verbatim>\<open>map_size\<close> bytes, so hashing it hashes \<^verbatim>\<open>map_size\<close> bytes.
\<close>

definition save_if_interesting ::
  "env \<Rightarrow> run_env \<Rightarrow> afl_run \<Rightarrow> u8 list \<Rightarrow> u8 \<Rightarrow> error + nat \<times> afl_run" where
  "save_if_interesting env renv afl mem fault =
     (if length mem = 0 then Inr (0, afl)
      else
        case count_path env renv afl of
          (cksum0, a0) \<Rightarrow>
            (case (if fault = crash_mode a0 then queue_if_new env renv a0 mem cksum0
                   else Inr (Inr (0, 0, a0))) of
               Inl e \<Rightarrow> Inl e
             | Inr (Inl r) \<Rightarrow> Inr r
             | Inr (Inr (keeping, classified, a1)) \<Rightarrow>
                 keep_fault_sample renv a1 mem fault keeping classified))"

text \<open>
  A first execution: a map of 8 edges with two entries per cell, the trace hits edge 0
  once, the candidate is five bytes; \<open>vb\<close> is the virgin map and \<open>ck\<close> the candidate's
  checksum. \<open>stored_afl\<close> is the state once the candidate has been stored in cell 0.
\<close>

definition fresh_afl :: "u8 list \<Rightarrow> u64 \<Rightarrow> afl_state" where
  "fresh_afl vb ck =
     (initial_afl 8 2 [1, 0, 0, 0, 0, 0, 0, 0])
       \<lparr>virgin_bits := vb,
        stack_entry := zeroed_queue_entry\<lparr>testcase_buf := [7, 7, 7, 8, 9], exec_cksum := ck\<rparr>\<rparr>"

definition stored_afl :: "u8 list \<Rightarrow> u64 \<Rightarrow> afl_state" where
  "stored_afl vb ck =
     (fresh_afl vb ck)
       \<lparr>edge_entries := (edge_entries (fresh_afl vb ck))
          [0 := (zeroed_edge_entry 0 0)\<lparr>hit_count := 1, entries := [0]\<rparr>],
        queue_buf := [zeroed_queue_entry
                        \<lparr>fname := '',op:havoc'', testcase_buf := [7, 7, 7, 8, 9],
                         input_hash := 43, trace_mini := Some [1], compressed_len := 4,
                         edge_entry := Some 0\<rparr>],
        queue_input_hashmap := [43 \<mapsto> \<lparr>hash = 43, inputs = [0], allocated_inputs = 8\<rparr>],
        pending_edge_entries := 1,
        discovered_edge_entries := 1,
        files := ['',op:havoc'' \<mapsto> [7, 7, 7, 8, 9]],
        prevLongest := 16,
        maxCompressedLen := 32,
        stack_entry := (stack_entry (fresh_afl vb ck))\<lparr>input_hash := 43, compressed_len := 4\<rparr>\<rparr>"

text \<open>
  Stand-ins for the collaborators of \<^verbatim>\<open>save_if_interesting\<close>: the coverage routines
  work byte by byte the way those of \<^verbatim>\<open>coverage-64.h\<close> do, the names count the files
  of their kind, nothing is cached, re-run or timed.
\<close>

definition toy_run_env :: run_env where
  "toy_run_env =
     \<lparr>FAST = 3, RARE = 7, N_FUZZ_SIZE = 2097152, KEEP_UNIQUE_HANG = 500,
      KEEP_UNIQUE_CRASH = 5000,
      skim = (\<lambda>virgin trace. list_ex (\<lambda>(v, t). v AND count_class_lookup8 t \<noteq> 0) (zip virgin trace)),
      classify_counts = map count_class_lookup8,
      simplify_trace = map (\<lambda>b. if b = 0 then 1 else 128),
      discover_word =
        (\<lambda>ret current virgin.
           if list_ex (\<lambda>(c, v). c AND v \<noteq> 0) (zip current virgin)
           then (if ret < 2
                 then (if list_ex (\<lambda>(c, v). c \<noteq> 0 \<and> v = 255) (zip current virgin) then 2 else 1)
                 else ret,
                 map (\<lambda>(c, v). v AND NOT c) (zip current virgin))
           else (ret, virgin)),
      hashfuzzClassify = (\<lambda>mem n. 0),
      queue_file_name = (\<lambda>a ck nb np. replicate (queued_paths (core a)) (CHR ''q'')),
      hang_file_name = (\<lambda>a. replicate (unique_hangs a) (CHR ''h'')),
      crash_file_name = (\<lambda>a. replicate (unique_crashes a) (CHR ''c'')),
      calibrate_fault = (\<lambda>afl q. 0),
      queue_testcase_store_mem = (\<lambda>a q mem. a),
      rerun_target = (\<lambda>a mem. (1, a)),
      write_crash_readme = (\<lambda>a. a),
      get_cur_time = (\<lambda>a. 0)\<rparr>"

text \<open>
  The fuzzer before that first execution, with the NCD-based queue enabled, in normal
  mode (\<^verbatim>\<open>crash_mode\<close> is \<^verbatim>\<open>FSRV_RUN_OK\<close>), without hashfuzz.
\<close>

definition example_run :: afl_run where
  "example_run =
     \<lparr>core = initial_afl 8 2 [1, 0, 0, 0, 0, 0, 0, 0],
      hashfuzzFoundPartitions = Map.empty,
      schedule = 0, n_fuzz = (\<lambda>k. 0), n_fuzz_entry = (\<lambda>q. 0),
      crash_mode = 0, ncd_based_queue = True, discovering_q_entries = 0,
      hashfuzz_enabled = False, hashfuzz_is_input_based = False, hashfuzz_partitions = 0,
      last_run_output_hash_class = 0, hashfuzz_mimic_transformation = False,
      hashfuzz_discovered_partitions = 0, queue_top = None, queued_with_cov = 0,
      q_testcase_max_cache_size = 0, bitmap_changed = False, total_crashes = 0,
      total_tmouts = 0, unique_hangs = 0, unique_tmouts = 0, unique_crashes = 0,
      non_instrumented_mode = False, virgin_tmout = replicate 8 255,
      virgin_crash = replicate 8 255, exec_tmout = 1000, hang_tmout = 1000,
      stop_soon = False, last_hang_time = 0, last_crash_time = 0, last_crash_execs = 0,
      infoexec = False\<rparr>"



definition bump :: "afl_state \<Rightarrow> nat \<Rightarrow> afl_state" where
  "bump afl pos =
     afl\<lparr>edge_entries := (edge_entries afl)
           [pos := (edge_entries afl ! pos)\<lparr>hit_count := hit_count (edge_entries afl ! pos) + 1\<rparr>]\<rparr>"

text \<open>
  What \<^verbatim>\<open>find_eviction_candidate\<close> selects among \<open>n\<close> indices with scores \<open>f\<close> against the
  recorded score \<open>cs\<close>: \<open>-1\<close> when no score is strictly greater than \<open>cs\<close>, otherwise the
  first index whose score is the greatest.
\<close>

definition best_replacement :: "(nat \<Rightarrow> rat) \<Rightarrow> nat \<Rightarrow> rat \<Rightarrow> int \<Rightarrow> bool" where
  "best_replacement f n cs r =
     (if \<forall>i<n. f i \<le> cs then r = - 1
      else 0 \<le> r \<and> nat r < n \<and> cs < f (nat r)
           \<and> (\<forall>i<n. f i \<le> f (nat r)) \<and> (\<forall>i<nat r. f i < f (nat r)))"

text \<open>
  A state in which two candidate sets have different exact scores and the same
  single-precision score: the queue holds \<open>4141\<close> and \<open>4140\<close> alternating bytes, the
  candidate is one other byte, the compressed sizes are cached and the scratch is
  unallocated.
\<close>

definition alternating :: "nat \<Rightarrow> u8 list" where
  "alternating n = map (\<lambda>i. if even i then 0 else 1) [0..<n]"

definition tie_afl :: afl_state where
  "tie_afl =
     (initial_afl 8 2 (replicate 8 0))
       \<lparr>queue_buf := [zeroed_queue_entry\<lparr>testcase_buf := alternating 4141, compressed_len := 4142\<rparr>,
                     zeroed_queue_entry\<lparr>testcase_buf := alternating 4140, compressed_len := 4141\<rparr>],
        stack_entry := zeroed_queue_entry\<lparr>testcase_buf := [9], compressed_len := 2\<rparr>\<rparr>"


text \<open>
  The invariant of the input-hash index: every queue entry is a member of the bucket
  keyed by its \<^verbatim>\<open>input_hash\<close>; the members of the bucket keyed by \<open>h\<close> are distinct queue
  entries whose \<^verbatim>\<open>input_hash\<close> is \<open>h\<close> and whose \<^verbatim>\<open>duplicates\<close> is the bucket's
  \<^verbatim>\<open>inputs_count\<close> minus one. \<open>cells_ok\<close>: the cells hold queue entries.
\<close>

definition index_ok :: "afl_state \<Rightarrow> bool" where
  "index_ok afl =
     ((\<forall>i < queued_paths afl.
         \<exists>b. queue_input_hashmap afl (input_hash (queue_buf afl ! i)) = Some b \<and> i \<in> set (inputs b))
      \<and> (\<forall>h b. queue_input_hashmap afl h = Some b \<longrightarrow>
             distinct (inputs b)
             \<and> (\<forall>e \<in> set (inputs b).
                   e < queued_paths afl \<and> input_hash (queue_buf afl ! e) = h
                   \<and> duplicates (queue_buf afl ! e) = inputs_count b - 1)))"

definition cells_ok :: "afl_state \<Rightarrow> bool" where
  "cells_ok afl = (\<forall>c \<in> set (edge_entries afl). \<forall>e \<in> set (entries c). e < queued_paths afl)"

text \<open>
  What that invariant gives, in the words of the specification: every queue entry is
  exactly once in the bucket keyed by its \<^verbatim>\<open>input_hash\<close> and in no other bucket, and every
  member of a bucket has \<^verbatim>\<open>duplicates\<close> equal to the bucket's \<^verbatim>\<open>inputs_count\<close> minus one.
\<close>

definition index_property :: "afl_state \<Rightarrow> bool" where
  "index_property afl =
     ((\<forall>i < queued_paths afl.
         (\<exists>b. queue_input_hashmap afl (input_hash (queue_buf afl ! i)) = Some b
              \<and> count_list (inputs b) i = 1)
         \<and> (\<forall>h b. queue_input_hashmap afl h = Some b \<and> i \<in> set (inputs b)
                  \<longrightarrow> h = input_hash (queue_buf afl ! i)))
      \<and> (\<forall>h b. queue_input_hashmap afl h = Some b \<longrightarrow>
             (\<forall>e \<in> set (inputs b). duplicates (queue_buf afl ! e) = inputs_count b - 1)))"

chapter \<open>Properties\<close>

section \<open>Classification is not idempotent\<close>

text \<open>
  Claim C6, as stated: classifying twice is classifying once, that is
  \<open>count_class_lookup8[count_class_lookup8[v]] = count_class_lookup8[v]\<close> for every
  byte \<open>v\<close>. The table refutes it at \<open>v = 3\<close>: \<open>3\<close> is classified as \<open>4\<close>, and \<open>4\<close>
  lies in the range \<open>4 ... 7\<close>, which is classified as \<open>8\<close>.
\<close>

theorem count_class_lookup8_not_idempotent:
  "count_class_lookup8 (count_class_lookup8 3) \<noteq> count_class_lookup8 3"
  by (simp add: count_class_lookup8_def Let_def)

text \<open>
  Claim C6, amended: reclassifying a byte leaves its class unchanged when the byte is
  outside \<open>3 ... 31\<close>; for a byte in \<open>3 ... 31\<close> the second classification doubles
  the class (it lands in the next bucket). A trace is classified byte by byte, so the
  same holds at every position of a trace classified twice.
\<close>

theorem count_class_lookup8_twice:
  "count_class_lookup8 (count_class_lookup8 v) =
     (if 3 \<le> unat v \<and> unat v \<le> 31 then 2 * count_class_lookup8 v
      else count_class_lookup8 v)
   \<and> map count_class_lookup8 (map count_class_lookup8 t) =
     map (\<lambda>b. if 3 \<le> unat b \<and> unat b \<le> 31 then 2 * count_class_lookup8 b
              else count_class_lookup8 b) t"
  by (simp add: count_class_lookup8_def Let_def)

section \<open>The normalised Levenshtein distance drops the last byte of each string\<close>

text \<open>
  Claim C7 says that \<^verbatim>\<open>calc_normalised_levenshtein_dist\<close> returns
  \<open>(len_longer - edit_dist) / len_longer\<close> with \<open>edit_dist\<close> the classical Levenshtein
  distance. The rows \<^verbatim>\<open>matrix1\<close> and \<^verbatim>\<open>matrix2\<close> have \<open>len_2\<close> cells, not \<open>len_2 + 1\<close>, and
  both loops stop one short (\<^verbatim>\<open>i < len_1 - 1\<close>, \<^verbatim>\<open>j < len_2 - 1\<close>), so the last byte of
  either string is never compared. On the test cases \<open>"ab"\<close> and \<open>"c"\<close> the function
  finds \<open>edit_dist = 1\<close> and returns \<open>1/2\<close>; the classical distance is \<open>2\<close> and the
  specified result \<open>0\<close>.
\<close>

lemma float_of_zero [simp]: "float_of 0 = 0"
  by (simp add: float_of_def)

lemma float_of_small:
  "float_of 1 = 1" "float_of 2 = 2" "float_of 3 = 3" "float_of 4 = 4" "float_of 5 = 5"
  "float_of 6 = 6" "float_of (1 / 2) = 1 / 2" "float_of (3 / 4) = 3 / 4"
  "float_of (2 / 3) = 11184811 / 16777216"
  by code_simp+

theorem calc_normalised_levenshtein_dist_ab_c:
  "calc_normalised_levenshtein_dist
       (zeroed_queue_entry\<lparr>testcase_buf := [97, 98]\<rparr>)
       (Some (zeroed_queue_entry\<lparr>testcase_buf := [99]\<rparr>)) = Inr (1 / 2)
   \<and> lev_edit_dist [97, 98] [99] = 1
   \<and> levenshtein [97, 98 :: u8] [99] = 2
   \<and> spec_normalised_levenshtein [97, 98] [99] = 0"
  by (simp add: calc_normalised_levenshtein_dist_def lev_edit_dist_def lev_rows_def
      lev_row_def LEVMIN_def zeroed_queue_entry_def spec_normalised_levenshtein_def Let_def
      float_of_small)

section \<open>The null test in the hash move comes too late\<close>

text \<open>
  Claim C10: in \<^verbatim>\<open>move_queue_entry_to_correct_input_hash\<close> the field \<^verbatim>\<open>found->hash\<close> is
  read before \<^verbatim>\<open>found\<close> is tested for null. Whenever the evictee's \<^verbatim>\<open>input_hash\<close> is
  absent from the index, the call ends in a null-pointer dereference; and no call at
  all ends in the fatal branch that reports the missing \<^verbatim>\<open>queue_input_hash\<close>.
\<close>

theorem move_null_dereference_before_null_test:
  "(queue_input_hashmap afl (input_hash (queue_buf afl ! evictee)) = None
      \<longrightarrow> move_queue_entry_to_correct_input_hash afl evictee new
            = Inl NullPointerDereference)
   \<and> move_queue_entry_to_correct_input_hash afl evictee new
        \<noteq> Inl (FATAL ''Failed to find queue_input_hash'')"
  by (simp add: move_queue_entry_to_correct_input_hash_def Let_def
      split: option.splits prod.splits)

text \<open>
  The theorem at a state whose index is empty: one queue entry, never registered.
\<close>

theorem move_null_dereference_witness:
  "queue_input_hashmap ((initial_afl 64 2 [])\<lparr>queue_buf := [zeroed_queue_entry]\<rparr>)
       (input_hash (queue_buf ((initial_afl 64 2 [])\<lparr>queue_buf := [zeroed_queue_entry]\<rparr>) ! 0)) = None
   \<and> move_queue_entry_to_correct_input_hash
        ((initial_afl 64 2 [])\<lparr>queue_buf := [zeroed_queue_entry]\<rparr>) 0 OnStack
        = Inl NullPointerDereference"
  using move_null_dereference_before_null_test
    [of "(initial_afl 64 2 [])\<lparr>queue_buf := [zeroed_queue_entry]\<rparr>" 0 OnStack]
  by (simp add: initial_afl_def)

section \<open>The scratch growth and the first loop of NCDm\<close>

lemma bitcnt_loop_acc: "bitcnt_loop b n = b + bitcnt_loop 0 n"
proof (induction n arbitrary: b rule: less_induct)
  case (less n)
  show ?case
  proof (cases "n > 1")
    case True
    then have lt: "n div 2 < n" by simp
    have a: "bitcnt_loop b n = bitcnt_loop (b + 1) (n div 2)"
      using True by (subst bitcnt_loop.simps) simp
    have c: "bitcnt_loop 0 n = bitcnt_loop 1 (n div 2)"
      using True by (subst bitcnt_loop.simps) simp
    show ?thesis
      unfolding a c less.IH[OF lt, of "b + 1"] less.IH[OF lt, of 1] by simp
  next
    case False
    then show ?thesis by (subst (1 2) bitcnt_loop.simps) simp
  qed
qed

lemma bitcnt_loop_bounds:
  "1 \<le> n \<Longrightarrow> 2 ^ bitcnt_loop 0 n \<le> n \<and> n < 2 * 2 ^ bitcnt_loop 0 n"
proof (induction n rule: less_induct)
  case (less n)
  show ?case
  proof (cases "n > 1")
    case False
    with less.prems have "n = 1" by simp
    then show ?thesis by (simp add: bitcnt_loop.simps)
  next
    case True
    have eq: "bitcnt_loop 0 n = Suc (bitcnt_loop 0 (n div 2))"
      using True bitcnt_loop_acc[of 1 "n div 2"] by (subst bitcnt_loop.simps) simp
    have "n div 2 < n" "1 \<le> n div 2" using True by auto
    from less.IH[OF this] have ih: "2 ^ bitcnt_loop 0 (n div 2) \<le> n div 2"
       "n div 2 < 2 * 2 ^ bitcnt_loop 0 (n div 2)" by auto
    define K :: nat where "K = 2 ^ bitcnt_loop 0 (n div 2)"
    have k1: "K \<le> n div 2" and k2: "n div 2 < 2 * K" using ih by (simp_all add: K_def)
    have "2 * K \<le> n" using k1 by arith
    moreover have "n < 2 * (2 * K)" using k2 by arith
    ultimately show ?thesis unfolding eq power_Suc K_def[symmetric] by simp
  qed
qed

lemma grow_scratch_gt: "val < prevLongest (grow_scratch env afl val)"
proof (cases "1 \<le> val")
  case True
  from bitcnt_loop_bounds[OF True] show ?thesis by (simp add: grow_scratch_def Let_def)
next
  case False
  then have "val = 0" by simp
  then show ?thesis by (simp add: grow_scratch_def Let_def)
qed

lemma grow_scratch_bounds:
  "1 \<le> val \<Longrightarrow> 2 * val < prevLongest (grow_scratch env afl val)
     \<and> prevLongest (grow_scratch env afl val) \<le> 4 * val"
  using bitcnt_loop_bounds[of val] by (simp add: grow_scratch_def Let_def)

lemma power_of_two_pow: "power_of_two (2 ^ k)"
  unfolding power_of_two_def by (rule exI[of _ k]) simp

lemma assign_scratch [simp]:
  "prevLongest (assign afl r q) = prevLongest afl"
  "maxCompressedLen (assign afl r q) = maxCompressedLen afl"
  "fsrv (assign afl r q) = fsrv afl"
  "edge_entries (assign afl r q) = edge_entries afl"
  "queue_input_hashmap (assign afl r q) = queue_input_hashmap afl"
  "length (queue_buf (assign afl r q)) = length (queue_buf afl)"
  by (cases r; simp)+

lemma assign_deref_id [simp]: "assign afl r (deref afl r) = afl"
  by (cases r) simp_all

lemma nth_list_update_total:
  "(xs[i := x]) ! j = (if i = j \<and> i < length xs then x else xs ! j)"
  by (cases "i < length xs") (simp_all add: nth_list_update list_update_beyond)

lemma deref_assign_buf:
  "testcase_buf q = testcase_buf (deref afl r) \<Longrightarrow>
   testcase_buf (deref (assign afl r q) r') = testcase_buf (deref afl r')"
  by (cases r; cases r'; simp add: nth_list_update_total)

lemma measure_step_preserves:
  assumes "ncdm_measure_step env (afl, t, m) r = (afl', t', m')"
  shows "prevLongest afl' = prevLongest afl" "maxCompressedLen afl' = maxCompressedLen afl"
    "t' = t + len (deref afl r)"
    "testcase_buf (deref afl' r') = testcase_buf (deref afl r')"
  using assms by (auto simp add: ncdm_measure_step_def Let_def deref_assign_buf split: if_splits)

lemma concat_entries_cong:
  "(\<And>r. testcase_buf (deref afl' r) = testcase_buf (deref afl r)) \<Longrightarrow>
   concat_entries afl' refs = concat_entries afl refs"
  by (simp add: concat_entries_def)

lemma measure_fold_preserves:
  "foldl (ncdm_measure_step env) (afl, t, m) refs = (afl', t', m') \<Longrightarrow>
   prevLongest afl' = prevLongest afl \<and> maxCompressedLen afl' = maxCompressedLen afl
   \<and> t' = t + length (concat_entries afl refs)
   \<and> (\<forall>r'. testcase_buf (deref afl' r') = testcase_buf (deref afl r'))"
proof (induction refs arbitrary: afl t m)
  case Nil
  then show ?case by (simp add: concat_entries_def)
next
  case (Cons r refs)
  obtain a1 t1 m1 where s: "ncdm_measure_step env (afl, t, m) r = (a1, t1, m1)"
    by (cases "ncdm_measure_step env (afl, t, m) r") auto
  note p = measure_step_preserves[OF s]
  from Cons.prems s have "foldl (ncdm_measure_step env) (a1, t1, m1) refs = (afl', t', m')" by simp
  from Cons.IH[OF this] have ih: "prevLongest afl' = prevLongest a1"
    "maxCompressedLen afl' = maxCompressedLen a1"
    "t' = t1 + length (concat_entries a1 refs)"
    "\<forall>r'. testcase_buf (deref afl' r') = testcase_buf (deref a1 r')" by auto
  have ce: "concat_entries a1 refs = concat_entries afl refs"
    by (rule concat_entries_cong) (rule p(4))
  show ?case using ih p ce by (simp add: concat_entries_def)
qed

lemma Max_insert_max:
  "finite S \<Longrightarrow> Max (insert (max a b) S) = Max (insert (a::nat) (insert b S))"
  by (cases "S = {}") (simp_all add: max.assoc)

lemma Min_insert_min:
  "finite S \<Longrightarrow> Min (insert (min a b) S) = Min (insert (a::nat) (insert b S))"
  by (cases "S = {}") (simp_all add: min.assoc)

lemma fold_max_eq:
  "foldl (\<lambda>m x. if g x > m then g x else m) (m0::nat) xs = Max (insert m0 (set (map g xs)))"
proof (induction xs arbitrary: m0)
  case Nil
  then show ?case by simp
next
  case (Cons x xs)
  have "foldl (\<lambda>m x. if g x > m then g x else m) m0 (x # xs)
        = foldl (\<lambda>m x. if g x > m then g x else m) (max m0 (g x)) xs"
    by (simp add: max_def)
  also have "\<dots> = Max (insert (max m0 (g x)) (set (map g xs)))" by (rule Cons.IH)
  also have "\<dots> = Max (insert m0 (insert (g x) (set (map g xs))))"
    by (rule Max_insert_max) simp
  finally show ?case by simp
qed

lemma fold_min_eq:
  "foldl (\<lambda>m x. if g x < m then g x else m) (m0::nat) xs = Min (insert m0 (set (map g xs)))"
proof (induction xs arbitrary: m0)
  case Nil
  then show ?case by simp
next
  case (Cons x xs)
  have "foldl (\<lambda>m x. if g x < m then g x else m) m0 (x # xs)
        = foldl (\<lambda>m x. if g x < m then g x else m) (min m0 (g x)) xs"
    by (simp add: min_def)
  also have "\<dots> = Min (insert (min m0 (g x)) (set (map g xs)))" by (rule Cons.IH)
  also have "\<dots> = Min (insert m0 (insert (g x) (set (map g xs))))"
    by (rule Min_insert_min) simp
  finally show ?case by simp
qed

lemma deref_assign_same: "valid_ref afl r \<Longrightarrow> deref (assign afl r q) r = q"
  by (cases r) simp_all

lemma deref_assign_other: "r' \<noteq> r \<Longrightarrow> deref (assign afl r q) r' = deref afl r'"
  by (cases r; cases r'; simp)

lemma valid_ref_assign [simp]: "valid_ref (assign afl r q) r' = valid_ref afl r'"
  by (cases r; cases r'; simp)

lemma learn_frame [simp]:
  "prevLongest (learn C afl r) = prevLongest afl"
  "maxCompressedLen (learn C afl r) = maxCompressedLen afl"
  "testcase_buf (deref (learn C afl r) r') = testcase_buf (deref afl r')"
  "valid_ref (learn C afl r) r' = valid_ref afl r'"
  by (simp_all add: learn_def deref_assign_buf)

lemma learn_size_known:
  assumes "size_known C afl r'"
  shows "size_known C (learn C afl r) r'"
proof (cases "r' = r")
  case True
  then have "compressed_len (deref (learn C afl r) r') = C (testcase_buf (deref afl r))"
    using assms by (simp add: learn_def size_known_def deref_assign_same)
  then show ?thesis using assms True by (simp add: size_known_def)
next
  case False
  then have "deref (learn C afl r) r' = deref afl r'" by (simp add: learn_def deref_assign_other)
  then show ?thesis using assms by (simp add: size_known_def)
qed

lemma map_update_same_image:
  "f q = f (xs ! i) \<Longrightarrow> map f (xs[i := q]) = map f xs"
  by (simp add: map_update) (metis list_update_id map_update nth_map list_update_beyond not_le_imp_less)

lemma forget_sizes_assign:
  "q\<lparr>compressed_len := 0\<rparr> = (deref afl r)\<lparr>compressed_len := 0\<rparr> \<Longrightarrow>
   forget_sizes (assign afl r q) = forget_sizes afl"
  by (cases r) (simp_all add: forget_sizes_def map_update_same_image)

lemma forget_sizes_learn [simp]: "forget_sizes (learn C afl r) = forget_sizes afl"
  by (simp add: learn_def forget_sizes_assign)

lemma forget_sizes_grow [simp]: "forget_sizes (grow_scratch env afl v) = forget_sizes afl"
  by (simp add: grow_scratch_def forget_sizes_def Let_def)

lemma measure_step_known:
  assumes "compressor env C" and "size_known C afl r"
  shows "ncdm_measure_step env (afl, t, m) r =
           (learn C afl r, t + len (deref afl r), min m (C (testcase_buf (deref afl r))))"
proof (cases "compressed_len (deref afl r) = 0")
  case False
  then have e: "compressed_len (deref afl r) = C (testcase_buf (deref afl r))"
    using assms(2) by (auto simp add: size_known_def)
  then have "learn C afl r = afl" unfolding learn_def e[symmetric] by simp
  then show ?thesis using False e by (simp add: ncdm_measure_step_def Let_def min_def)
next
  case True
  have "C (testcase_buf (deref afl r)) \<le> maxCompressedLen afl"
    using assms(2) True by (auto simp add: size_known_def)
  then have lz: "LZ4_compress_default env (testcase_buf (deref afl r)) (maxCompressedLen afl)
                 = C (testcase_buf (deref afl r))"
    using assms(1) by (simp add: compressor_def)
  have v: "valid_ref afl r" using assms(2) by (simp add: size_known_def)
  show ?thesis using True lz
    by (simp add: ncdm_measure_step_def Let_def min_def learn_def deref_assign_same[OF v])
qed

lemma learn_fold_frame:
  "prevLongest (foldl (learn C) afl refs) = prevLongest afl
   \<and> maxCompressedLen (foldl (learn C) afl refs) = maxCompressedLen afl
   \<and> (\<forall>r'. testcase_buf (deref (foldl (learn C) afl refs) r') = testcase_buf (deref afl r'))
   \<and> (\<forall>r'. size_known C afl r' \<longrightarrow> size_known C (foldl (learn C) afl refs) r')
   \<and> forget_sizes (foldl (learn C) afl refs) = forget_sizes afl"
proof (induction refs arbitrary: afl)
  case Nil
  then show ?case by simp
next
  case (Cons r refs)
  show ?case using Cons.IH[of "learn C afl r"] by (simp add: learn_size_known)
qed

lemma measure_fold_known:
  assumes "compressor env C"
  shows "\<forall>r\<in>set refs. size_known C afl r \<Longrightarrow>
         foldl (ncdm_measure_step env) (afl, t, m) refs =
           (foldl (learn C) afl refs, t + length (concat_entries afl refs),
            Min (insert m (set (map (\<lambda>r. C (testcase_buf (deref afl r))) refs))))"
proof (induction refs arbitrary: afl t m)
  case Nil
  then show ?case by (simp add: concat_entries_def)
next
  case (Cons r refs)
  let ?c = "\<lambda>a r. C (testcase_buf (deref a r))"
  have s: "ncdm_measure_step env (afl, t, m) r = (learn C afl r, t + len (deref afl r), min m (?c afl r))"
    using measure_step_known[OF assms, of afl r t m] Cons.prems by simp
  have k: "\<forall>r'\<in>set refs. size_known C (learn C afl r) r'"
    using Cons.prems by (simp add: learn_size_known)
  have ih: "foldl (ncdm_measure_step env) (learn C afl r, t + len (deref afl r), min m (?c afl r)) refs
     = (foldl (learn C) (learn C afl r) refs,
        t + len (deref afl r) + length (concat_entries (learn C afl r) refs),
        Min (insert (min m (?c afl r)) (set (map (?c (learn C afl r)) refs))))"
    by (rule Cons.IH[OF k])
  have ce: "concat_entries (learn C afl r) refs = concat_entries afl refs"
    by (simp add: concat_entries_def)
  have cm: "map (?c (learn C afl r)) refs = map (?c afl) refs" by simp
  have "Min (insert (min m (?c afl r)) (set (map (?c afl) refs)))
      = Min (insert m (insert (?c afl r) (set (map (?c afl) refs))))"
    by (rule Min_insert_min) simp
  then show ?case using s ih ce cm by (simp add: concat_entries_def)
qed

lemma filter_neq_upt:
  "map (\<lambda>j. f (xs ! j)) (filter (\<lambda>j. j \<noteq> i) [0..<length xs]) = map f (leave_out xs i)"
proof (induction xs arbitrary: i)
  case Nil
  then show ?case by (simp add: leave_out_def)
next
  case (Cons x xs)
  have u: "[0..<length (x # xs)] = 0 # map Suc [0..<length xs]"
    by (simp add: upt_conv_Cons map_Suc_upt del: upt_Suc)
  show ?case
  proof (cases i)
    case 0
    have "filter (\<lambda>j. j \<noteq> 0) (map Suc [0..<length xs]) = map Suc [0..<length xs]"
      by (simp add: filter_map comp_def)
    moreover have "map (\<lambda>j. f (xs ! j)) [0..<length xs] = map f xs"
      by (rule nth_equalityI) simp_all
    ultimately show ?thesis unfolding u using 0
      by (simp add: leave_out_def comp_def del: upt_Suc)
  next
    case (Suc i')
    have "filter (\<lambda>j. j \<noteq> Suc i') (map Suc [0..<length xs])
          = map Suc (filter (\<lambda>j. j \<noteq> i') [0..<length xs])"
      by (simp add: filter_map comp_def)
    then show ?thesis unfolding u using Suc Cons.IH[of i']
      by (simp add: leave_out_def comp_def del: upt_Suc)
  qed
qed

lemma concat_without_leave_out:
  "concat_without afl refs i = concat (leave_out (map (\<lambda>r. testcase_buf (deref afl r)) refs) i)"
proof -
  have "map (\<lambda>j. testcase_buf (deref afl (refs ! j))) (filter (\<lambda>j. j \<noteq> i) [0..<length refs])
        = map (\<lambda>r. testcase_buf (deref afl r)) (leave_out refs i)"
    by (rule filter_neq_upt)
  then show ?thesis by (simp add: concat_without_def leave_out_def take_map drop_map)
qed

lemma length_concat_leave_out: "length (concat (leave_out xs i)) \<le> length (concat xs)"
proof -
  have "length (concat xs) = length (concat (take i xs @ drop i xs))" by simp
  also have "\<dots> = length (concat (take i xs)) + length (concat (drop i xs))"
    by (simp only: concat_append length_append)
  finally have a: "length (concat xs) = length (concat (take i xs)) + length (concat (drop i xs))" .
  have "length (concat (drop (Suc i) xs)) \<le> length (concat (drop i xs))"
  proof (cases "i < length xs")
    case True
    then have "drop i xs = xs ! i # drop (Suc i) xs" by (simp add: Cons_nth_drop_Suc)
    then show ?thesis by simp
  next
    case False
    then show ?thesis by simp
  qed
  then show ?thesis using a by (simp add: leave_out_def)
qed

lemma cap_after_growth:
  fixes T :: nat
  assumes c: "compressor env C" and ok: "scratch_ok env afl"
  defines "afl2 \<equiv> (if prevLongest afl \<le> T then grow_scratch env afl T else afl)"
  shows "LZ4_compressBound env T \<le> maxCompressedLen afl2 \<and> scratch_ok env afl2
         \<and> maxCompressedLen afl \<le> maxCompressedLen afl2 \<and> prevLongest afl \<le> prevLongest afl2"
proof (cases "prevLongest afl \<le> T")
  case True
  have mono: "\<And>m n. m \<le> n \<Longrightarrow> LZ4_compressBound env m \<le> LZ4_compressBound env n"
    using c by (simp add: compressor_def)
  have g: "T < prevLongest (grow_scratch env afl T)" by (rule grow_scratch_gt)
  have m: "maxCompressedLen (grow_scratch env afl T) = LZ4_compressBound env (prevLongest (grow_scratch env afl T))"
    by (simp add: grow_scratch_def Let_def)
  have "maxCompressedLen afl \<le> LZ4_compressBound env (prevLongest (grow_scratch env afl T))"
    using ok True g mono[of "prevLongest afl" "prevLongest (grow_scratch env afl T)"]
    by (auto simp add: scratch_ok_def)
  then show ?thesis using True g m mono[of T "prevLongest (grow_scratch env afl T)"]
    by (simp add: afl2_def scratch_ok_def)
next
  case False
  have mono: "\<And>m n. m \<le> n \<Longrightarrow> LZ4_compressBound env m \<le> LZ4_compressBound env n"
    using c by (simp add: compressor_def)
  from False ok have "maxCompressedLen afl = LZ4_compressBound env (prevLongest afl)"
    by (auto simp add: scratch_ok_def)
  then show ?thesis using False ok mono[of T "prevLongest afl"] by (simp add: afl2_def)
qed

lemma Max_insert_0: "finite S \<Longrightarrow> S \<noteq> {} \<Longrightarrow> Max (insert (0::nat) S) = Max S"
  by simp

lemma calc_NCDm_known:
  assumes c: "compressor env C" and ok: "scratch_ok env afl"
    and k: "\<forall>r\<in>set refs. size_known C afl r"
  defines "T \<equiv> length (concat_entries afl refs)"
  defines "afl1 \<equiv> foldl (learn C) afl refs"
  defines "afl2 \<equiv> (if prevLongest afl1 \<le> T then grow_scratch env afl1 T else afl1)"
  shows "snd (calc_NCDm env afl refs) = afl2"
    and "refs \<noteq> [] \<Longrightarrow> fst (calc_NCDm env afl refs)
           = float_NCDm C (map (\<lambda>r. testcase_buf (deref afl r)) refs)"
proof -
  let ?b = "\<lambda>r. testcase_buf (deref afl r)"
  let ?cap = "maxCompressedLen afl2"
  have fr: "prevLongest afl1 = prevLongest afl" "maxCompressedLen afl1 = maxCompressedLen afl"
    "\<And>r'. testcase_buf (deref afl1 r') = testcase_buf (deref afl r')"
    using learn_fold_frame[of C afl refs] by (simp_all add: afl1_def)
  have ok1: "scratch_ok env afl1" using ok fr by (simp add: scratch_ok_def)
  have fold1: "foldl (ncdm_measure_step env) (afl, 0, 4294967295) refs
      = (afl1, T, Min (insert 4294967295 (set (map (\<lambda>r. C (?b r)) refs))))"
    using measure_fold_known[OF c k, of 0 4294967295] by (simp add: afl1_def T_def)
  have cap: "LZ4_compressBound env T \<le> ?cap"
    using cap_after_growth[OF c ok1, of T] by (simp add: afl2_def)
  have b2: "testcase_buf (deref afl2 r') = testcase_buf (deref afl r')" for r'
    using fr(3)[of r'] by (cases r') (simp_all add: afl2_def grow_scratch_def Let_def)
  have lz: "\<And>x. length x \<le> T \<Longrightarrow> LZ4_compress_default env x ?cap = C x"
  proof -
    fix x :: "u8 list" assume "length x \<le> T"
    then have "LZ4_compressBound env (length x) \<le> LZ4_compressBound env T"
      using c by (simp add: compressor_def)
    moreover have "C x \<le> LZ4_compressBound env (length x)" using c by (simp add: compressor_def)
    ultimately have "C x \<le> ?cap" using cap by linarith
    then show "LZ4_compress_default env x ?cap = C x" using c by (simp add: compressor_def)
  qed
  have ce2: "concat_entries afl2 refs = concat_entries afl refs"
    by (simp add: concat_entries_def b2)
  have cw2: "\<And>i. concat_without afl2 refs i = concat (leave_out (map ?b refs) i)"
    by (simp add: concat_without_leave_out b2)
  have full: "LZ4_compress_default env (concat_entries afl2 refs) ?cap = C (concat (map ?b refs))"
    using lz[of "concat_entries afl refs"] by (simp add: ce2 T_def) (simp add: concat_entries_def)
  have sub: "\<And>i. LZ4_compress_default env (concat_without afl2 refs i) ?cap
                 = C (concat (leave_out (map ?b refs) i))"
  proof -
    fix i
    have "length (concat (leave_out (map ?b refs) i)) \<le> T"
      using length_concat_leave_out[of "map ?b refs" i] by (simp add: T_def concat_entries_def)
    then show "LZ4_compress_default env (concat_without afl2 refs i) ?cap
                 = C (concat (leave_out (map ?b refs) i))"
      using lz by (simp add: cw2)
  qed
  have mx: "foldl (\<lambda>m leftOut.
               let compressedLen = LZ4_compress_default env (concat_without afl2 refs leftOut) ?cap
               in if compressedLen > m then compressedLen else m) 0 [0..<length refs]
        = Max (insert 0 (set (map (\<lambda>i. C (concat (leave_out (map ?b refs) i))) [0..<length refs])))"
    using fold_max_eq[of "\<lambda>i. C (concat (leave_out (map ?b refs) i))" 0 "[0..<length refs]"]
    by (simp add: Let_def sub)
  show "snd (calc_NCDm env afl refs) = afl2"
    unfolding calc_NCDm_def fold1
    by (simp only: Let_def prod.case snd_conv if_distrib[of snd] if_cancel afl2_def)
  assume ne: "refs \<noteq> []"
  have mx': "Max (insert 0 (set (map (\<lambda>i. C (concat (leave_out (map ?b refs) i))) [0..<length refs])))
        = Max (set (map (\<lambda>i. C (concat (leave_out (map ?b refs) i))) [0..<length refs]))"
    using ne by (intro Max_insert_0) simp_all
  from ne obtain r0 where r0: "r0 \<in> set refs" by (cases refs) auto
  have r0le: "C (?b r0) \<le> 4294967295" using k r0 by (simp add: size_known_def)
  have "Min (set (map (\<lambda>r. C (?b r)) refs)) \<le> C (?b r0)"
    by (rule Min_le) (use r0 in simp_all)
  then have "Min (set (map (\<lambda>r. C (?b r)) refs)) \<le> 4294967295" using r0le by linarith
  moreover have "Min (insert 4294967295 (set (map (\<lambda>r. C (?b r)) refs)))
        = min 4294967295 (Min (set (map (\<lambda>r. C (?b r)) refs)))"
    by (rule Min_insert) (use ne in simp_all)
  ultimately have mn: "Min (insert 4294967295 (set (map (\<lambda>r. C (?b r)) refs)))
        = Min (set (map (\<lambda>r. C (?b r)) refs))"
    by (simp only: min_def) simp
  show "fst (calc_NCDm env afl refs) = float_NCDm C (map ?b refs)"
    unfolding calc_NCDm_def fold1
    apply (simp only: Let_def prod.case afl2_def[symmetric] full)
    apply (simp only: mx[unfolded Let_def] mx' mn fst_conv if_distrib[of fst])
    apply (simp only: float_NCDm_def Let_def length_map list.map_comp comp_def)
    done
qed

section \<open>NCDm and the scratch capacity\<close>

lemma compressor_toy: "compressor toy_env toy_C"
proof -
  have a: "Suc (length (remdups_adj src)) \<le> length src + length src div 255 + 16" for src :: "u8 list"
    using remdups_adj_length[of src] by linarith
  have b: "m \<le> n \<Longrightarrow> m + m div 255 + 16 \<le> n + n div 255 + 16" for m n :: nat
    by (simp add: add_mono div_le_mono)
  show ?thesis using a b by (simp add: compressor_def toy_env_def toy_C_def)
qed

text \<open>
  Claim C2, amended: for a non-empty list of queue entries whose compressed sizes are
  known (\<open>c\<^sub>i = C e\<^sub>i\<close>: cached in \<^verbatim>\<open>compressed_len\<close>, or still 0 and compressed by the first
  loop), of total length below \<open>2 ^ 29\<close> and with a scratch of at most \<open>2 ^ 30\<close> bytes,
  \<^verbatim>\<open>calc_NCDm\<close> returns the quotient \<open>(C (e\<^sub>1 @ ... @ e\<^sub>n) - min c\<^sub>i) / maxSubsetC\<close> as
  computed in single precision: the three sizes are converted to \<^verbatim>\<open>float\<close>, and the
  subtraction and the division each round to \<^verbatim>\<open>float\<close>; \<open>maxSubsetC\<close> is the greatest
  compressed size of a concatenation that leaves one entry out, and the result is 0
  when \<open>maxSubsetC = 0\<close>. The result is not always the exact quotient: for the sizes 4, 2
  and 3 it is \<open>11184811 / 16777216\<close>, not \<open>2 / 3\<close>.
\<close>

theorem calc_NCDm_computes_NCDm:
  assumes "compressor env C" and "scratch_ok env afl" and "queue_entries \<noteq> []"
    and "\<forall>r\<in>set queue_entries. size_known C afl r"
    and "length (concat_entries afl queue_entries) < 2 ^ 29"
    and "prevLongest afl \<le> 2 ^ 30"
  shows "fst (calc_NCDm env afl queue_entries)
           = float_NCDm C (map (\<lambda>r. testcase_buf (deref afl r)) queue_entries)"
  using calc_NCDm_known(2)[OF assms(1,2,4,3)] .

lemma example_afl_known:
  "scratch_ok toy_env example_afl"
  "size_known toy_C example_afl (InQueue 0)"
  "size_known toy_C example_afl (InQueue 1)"
  "length (concat_entries example_afl [InQueue 0, InQueue 1]) < 2 ^ 29"
  "prevLongest example_afl \<le> 2 ^ 30"
  by (simp_all add: scratch_ok_def size_known_def example_afl_def initial_afl_def toy_C_def
      toy_env_def zeroed_queue_entry_def concat_entries_def)

lemma example_afl_scores:
  "float_NCDm toy_C (map (\<lambda>r. testcase_buf (deref example_afl r)) [InQueue 0, InQueue 1])
     = 11184811 / 16777216"
  "spec_NCDm toy_C (map (\<lambda>r. testcase_buf (deref example_afl r)) [InQueue 0, InQueue 1])
     = 2 / 3"
  by (simp_all add: float_NCDm_def spec_NCDm_def leave_out_def example_afl_def initial_afl_def
      toy_C_def zeroed_queue_entry_def Let_def upt_conv_Cons float_of_small)

theorem calc_NCDm_computes_NCDm_witness:
  "compressor toy_env toy_C \<and> scratch_ok toy_env example_afl
   \<and> [InQueue 0, InQueue 1] \<noteq> []
   \<and> size_known toy_C example_afl (InQueue 0) \<and> size_known toy_C example_afl (InQueue 1)
   \<and> length (concat_entries example_afl [InQueue 0, InQueue 1]) < 2 ^ 29
   \<and> prevLongest example_afl \<le> 2 ^ 30
   \<and> fst (calc_NCDm toy_env example_afl [InQueue 0, InQueue 1]) = 11184811 / 16777216"
proof -
  have "fst (calc_NCDm toy_env example_afl [InQueue 0, InQueue 1])
          = float_NCDm toy_C (map (\<lambda>r. testcase_buf (deref example_afl r)) [InQueue 0, InQueue 1])"
    using calc_NCDm_computes_NCDm[OF compressor_toy example_afl_known(1), of "[InQueue 0, InQueue 1]"]
      example_afl_known by simp
  then show ?thesis using compressor_toy example_afl_known example_afl_scores(1) by simp
qed

text \<open>
  The claim as it stands, with the exact quotient, fails on the same run: the sizes are
  4, 2 and 3, the exact quotient is \<open>2 / 3\<close>, and \<^verbatim>\<open>calc_NCDm\<close> returns the nearest
  \<^verbatim>\<open>float\<close>, \<open>11184811 / 16777216\<close>.
\<close>

theorem calc_NCDm_not_exact_quotient:
  "fst (calc_NCDm toy_env example_afl [InQueue 0, InQueue 1]) = 11184811 / 16777216
   \<and> spec_NCDm toy_C (map (\<lambda>r. testcase_buf (deref example_afl r)) [InQueue 0, InQueue 1])
       = 2 / 3
   \<and> fst (calc_NCDm toy_env example_afl [InQueue 0, InQueue 1])
       \<noteq> spec_NCDm toy_C (map (\<lambda>r. testcase_buf (deref example_afl r)) [InQueue 0, InQueue 1])"
proof -
  have "[InQueue 0, InQueue 1] \<noteq> []" by simp
  moreover have "\<forall>r\<in>set [InQueue 0, InQueue 1]. size_known toy_C example_afl r"
    using example_afl_known by simp
  ultimately have "fst (calc_NCDm toy_env example_afl [InQueue 0, InQueue 1])
          = float_NCDm toy_C (map (\<lambda>r. testcase_buf (deref example_afl r)) [InQueue 0, InQueue 1])"
    using calc_NCDm_known(2)[OF compressor_toy example_afl_known(1)] by blast
  then show ?thesis using example_afl_scores by simp
qed

lemma calc_NCDm_prevLongest:
  "prevLongest (snd (calc_NCDm env afl refs)) =
     (if prevLongest afl \<le> length (concat_entries afl refs)
      then 2 ^ (bitcnt_loop 0 (length (concat_entries afl refs)) + 2)
      else prevLongest afl)"
proof -
  obtain a1 t1 m1 where f: "foldl (ncdm_measure_step env) (afl, 0, 4294967295) refs = (a1, t1, m1)"
    by (cases "foldl (ncdm_measure_step env) (afl, 0, 4294967295) refs") auto
  from measure_fold_preserves[OF f] have p: "prevLongest a1 = prevLongest afl"
    "t1 = length (concat_entries afl refs)" by simp_all
  have "snd (calc_NCDm env afl refs) = (if prevLongest a1 \<le> t1 then grow_scratch env a1 t1 else a1)"
    unfolding calc_NCDm_def f
    by (simp only: Let_def prod.case snd_conv if_distrib[of snd] if_cancel)
  then show ?thesis using p by (simp add: grow_scratch_def Let_def)
qed

lemma fill_prevLongest:
  assumes "fill_trace_mini_and_compressed_len env afl q = Inr afl'"
  shows "prevLongest afl' =
     (if 2 * len (deref afl q) > prevLongest afl
      then 2 ^ (bitcnt_loop 0 (len (deref afl q)) + 2)
      else prevLongest afl)"
  using assms
  by (auto simp add: fill_trace_mini_and_compressed_len_def Let_def grow_scratch_def
      split: if_splits)

lemma pow_bounds:
  fixes d :: nat
  shows "d < 2 ^ (bitcnt_loop 0 d + 2)"
    and "1 \<le> d \<Longrightarrow> 2 * d < 2 ^ (bitcnt_loop 0 d + 2) \<and> 2 ^ (bitcnt_loop 0 d + 2) \<le> 4 * d"
proof -
  show "1 \<le> d \<Longrightarrow> 2 * d < 2 ^ (bitcnt_loop 0 d + 2) \<and> 2 ^ (bitcnt_loop 0 d + 2) \<le> 4 * d"
    using bitcnt_loop_bounds[of d] by simp
  show "d < 2 ^ (bitcnt_loop 0 d + 2)"
  proof (cases "1 \<le> d")
    case True
    then show ?thesis using bitcnt_loop_bounds[of d] by simp
  next
    case False
    then have "d = 0" by simp
    then show ?thesis by simp
  qed
qed

text \<open>
  Claim C8, amended: for demands below \<open>2 ^ 29\<close> bytes (beyond, the shift
  \<^verbatim>\<open>1 << (bitcnt + 2)\<close> leaves the range of \<^verbatim>\<open>int\<close>), \<^verbatim>\<open>prevLongest\<close> never decreases across
  a call of \<^verbatim>\<open>calc_NCDm\<close> or of \<^verbatim>\<open>fill_trace_mini_and_compressed_len\<close>, and is a power of
  two once it has been set. \<^verbatim>\<open>calc_NCDm\<close> grows it when \<^verbatim>\<open>prevLongest <= totalLen\<close>,
  \<^verbatim>\<open>fill_trace_mini_and_compressed_len\<close> when \<^verbatim>\<open>2 * len > prevLongest\<close>; the new value is
  \<open>2 ^ (\<lfloor>log\<^sub>2 demand\<rfloor> + 2)\<close> for the demand \<^verbatim>\<open>totalLen\<close>, respectively \<^verbatim>\<open>len\<close>: four
  times the demand rounded down to a power of two, which is more than twice and at
  most four times the demand.
\<close>

theorem scratch_capacity_growth:
  assumes "length (concat_entries afl queue_entries) < 2 ^ 29"
    and "len (deref afl q_entry) < 2 ^ 29"
    and "fill_trace_mini_and_compressed_len env afl q_entry = Inr afl'"
    and "prevLongest afl = 0 \<or> power_of_two (prevLongest afl)"
  defines "totalLen \<equiv> length (concat_entries afl queue_entries)"
  defines "after_NCDm \<equiv> prevLongest (snd (calc_NCDm env afl queue_entries))"
  shows "(prevLongest afl \<le> after_NCDm \<and> power_of_two after_NCDm
         \<and> (if prevLongest afl \<le> totalLen
             then after_NCDm = 2 ^ (bitcnt_loop 0 totalLen + 2) \<and> totalLen < after_NCDm
                  \<and> (1 \<le> totalLen \<longrightarrow> 2 * totalLen < after_NCDm \<and> after_NCDm \<le> 4 * totalLen)
             else after_NCDm = prevLongest afl))
       \<and> (prevLongest afl \<le> prevLongest afl'
         \<and> (prevLongest afl' = 0 \<or> power_of_two (prevLongest afl'))
         \<and> (if 2 * len (deref afl q_entry) > prevLongest afl
             then prevLongest afl' = 2 ^ (bitcnt_loop 0 (len (deref afl q_entry)) + 2)
                  \<and> 2 * len (deref afl q_entry) < prevLongest afl'
                  \<and> prevLongest afl' \<le> 4 * len (deref afl q_entry)
             else prevLongest afl' = prevLongest afl))"
proof (rule conjI)
  have a: "after_NCDm = (if prevLongest afl \<le> totalLen then 2 ^ (bitcnt_loop 0 totalLen + 2)
                         else prevLongest afl)"
    by (simp add: after_NCDm_def totalLen_def calc_NCDm_prevLongest)
  show "prevLongest afl \<le> after_NCDm \<and> power_of_two after_NCDm
         \<and> (if prevLongest afl \<le> totalLen
             then after_NCDm = 2 ^ (bitcnt_loop 0 totalLen + 2) \<and> totalLen < after_NCDm
                  \<and> (1 \<le> totalLen \<longrightarrow> 2 * totalLen < after_NCDm \<and> after_NCDm \<le> 4 * totalLen)
             else after_NCDm = prevLongest afl)"
  proof (cases "prevLongest afl \<le> totalLen")
    case True
    then have e: "after_NCDm = 2 ^ (bitcnt_loop 0 totalLen + 2)" using a by simp
    show ?thesis using True pow_bounds[of totalLen] power_of_two_pow[of "bitcnt_loop 0 totalLen + 2"]
      unfolding e by auto
  next
    case False
    then have e: "after_NCDm = prevLongest afl" using a by simp
    from False have "prevLongest afl \<noteq> 0" by simp
    then show ?thesis using False assms(4) unfolding e by simp
  qed
next
  let ?L = "len (deref afl q_entry)"
  have b: "prevLongest afl' = (if 2 * ?L > prevLongest afl then 2 ^ (bitcnt_loop 0 ?L + 2)
                               else prevLongest afl)"
    by (rule fill_prevLongest[OF assms(3)])
  show "prevLongest afl \<le> prevLongest afl'
         \<and> (prevLongest afl' = 0 \<or> power_of_two (prevLongest afl'))
         \<and> (if 2 * ?L > prevLongest afl
             then prevLongest afl' = 2 ^ (bitcnt_loop 0 ?L + 2)
                  \<and> 2 * ?L < prevLongest afl' \<and> prevLongest afl' \<le> 4 * ?L
             else prevLongest afl' = prevLongest afl)"
  proof (cases "2 * ?L > prevLongest afl")
    case True
    then have e: "prevLongest afl' = 2 ^ (bitcnt_loop 0 ?L + 2)" using b by simp
    from True have "1 \<le> ?L" by simp
    then show ?thesis using True pow_bounds(2)[of ?L] power_of_two_pow[of "bitcnt_loop 0 ?L + 2"]
      unfolding e by auto
  next
    case False
    then have e: "prevLongest afl' = prevLongest afl" using b by simp
    show ?thesis using False assms(4) unfolding e by simp
  qed
qed

text \<open>
  Claim C8, as stated, says that the new capacity is the demand rounded up to the next
  power of two, times four. A first call of \<^verbatim>\<open>calc_NCDm\<close> on one entry of five bytes
  finds \<^verbatim>\<open>prevLongest = 0 <= 5\<close> and sets it to \<open>1 << (2 + 2) = 16\<close>; five rounded up
  to a power of two is 8, times four is 32.
\<close>

theorem scratch_capacity_counterexample:
  "prevLongest ((initial_afl 8 2 (replicate 8 0))\<lparr>stack_entry := zeroed_queue_entry\<lparr>testcase_buf := [7, 7, 7, 8, 9]\<rparr>\<rparr>) < 5
   \<and> length (concat_entries ((initial_afl 8 2 (replicate 8 0))\<lparr>stack_entry := zeroed_queue_entry\<lparr>testcase_buf := [7, 7, 7, 8, 9]\<rparr>\<rparr>) [OnStack]) = 5
   \<and> prevLongest (snd (calc_NCDm toy_env
         ((initial_afl 8 2 (replicate 8 0))\<lparr>stack_entry := zeroed_queue_entry\<lparr>testcase_buf := [7, 7, 7, 8, 9]\<rparr>\<rparr>)
         [OnStack])) = 16
   \<and> spec_scratch_capacity 5 = 32"
  by (simp add: calc_NCDm_prevLongest concat_entries_def initial_afl_def zeroed_queue_entry_def
      spec_scratch_capacity_def round_up_pow2.simps bitcnt_loop.simps)

lemma fill_example:
  "fill_trace_mini_and_compressed_len toy_env (example_afl\<lparr>prevLongest := 4, maxCompressedLen := 20\<rparr>) OnStack
   = Inr (example_afl\<lparr>prevLongest := 16, maxCompressedLen := 32,
            stack_entry := zeroed_queue_entry\<lparr>testcase_buf := [7, 7, 7, 8, 9],
               trace_mini := Some [0], compressed_len := 4\<rparr>\<rparr>)"
  by (simp add: fill_trace_mini_and_compressed_len_def example_afl_def initial_afl_def
      grow_scratch_def bitcnt_loop.simps toy_env_def toy_C_def minimize_bits_def Let_def
      upt_conv_Cons)

theorem scratch_capacity_growth_witness:
  "length (concat_entries (example_afl\<lparr>prevLongest := 4, maxCompressedLen := 20\<rparr>)
             [InQueue 0, InQueue 1]) < 2 ^ 29
   \<and> len (deref (example_afl\<lparr>prevLongest := 4, maxCompressedLen := 20\<rparr>) OnStack) < 2 ^ 29
   \<and> power_of_two (prevLongest (example_afl\<lparr>prevLongest := 4, maxCompressedLen := 20\<rparr>))
   \<and> prevLongest (snd (calc_NCDm toy_env (example_afl\<lparr>prevLongest := 4, maxCompressedLen := 20\<rparr>)
                         [InQueue 0, InQueue 1])) = 16
   \<and> fill_trace_mini_and_compressed_len toy_env
         (example_afl\<lparr>prevLongest := 4, maxCompressedLen := 20\<rparr>) OnStack
       = Inr (example_afl\<lparr>prevLongest := 16, maxCompressedLen := 32,
            stack_entry := zeroed_queue_entry\<lparr>testcase_buf := [7, 7, 7, 8, 9],
               trace_mini := Some [0], compressed_len := 4\<rparr>\<rparr>)"
proof -
  let ?W = "example_afl\<lparr>prevLongest := 4, maxCompressedLen := 20\<rparr>"
  have h1: "length (concat_entries ?W [InQueue 0, InQueue 1]) < 2 ^ 29"
    by (simp add: concat_entries_def example_afl_def initial_afl_def)
  have h2: "len (deref ?W OnStack) < 2 ^ 29"
    by (simp add: example_afl_def initial_afl_def)
  have p4: "power_of_two (prevLongest ?W)"
    using power_of_two_pow[of 2] by simp
  then have h4: "prevLongest ?W = 0 \<or> power_of_two (prevLongest ?W)" by simp
  have t: "length (concat_entries ?W [InQueue 0, InQueue 1]) = 4"
    by (simp add: concat_entries_def example_afl_def initial_afl_def)
  have b: "bitcnt_loop 0 4 = 2" by (simp add: bitcnt_loop.simps)
  from scratch_capacity_growth[OF h1 h2 fill_example h4, unfolded t]
  have "prevLongest (snd (calc_NCDm toy_env ?W [InQueue 0, InQueue 1])) = 16"
    by (simp add: b)
  then show ?thesis using h1 h2 p4 fill_example by simp
qed

section \<open>The cover loop terminates\<close>






lemma foldl_cover_scan_Inl:
  "foldl (cover_scan_step env n m sel) (Inl e) xs = Inl e"
  by (induction xs) (simp_all add: cover_scan_step_def)




lemma length_or_into [simp]: "length (or_into n d t) = max (length d) (8 * n)"
  by (simp add: or_into_def)









section \<open>The NCDm-favored entries cover the discovered edges\<close>

























section \<open>Choosing the entry to evict\<close>

lemma grow_scratch_deref [simp]: "deref (grow_scratch env afl v) r = deref afl r"
  by (cases r) (simp_all add: grow_scratch_def Let_def)

lemma grow_scratch_valid [simp]: "valid_ref (grow_scratch env afl v) r = valid_ref afl r"
  by (cases r) (simp_all add: grow_scratch_def Let_def)

lemma calc_NCDm_step:
  assumes c: "compressor env C" and ok: "scratch_ok env afl"
    and k: "\<forall>r\<in>set refs. size_known C afl r" and ne: "refs \<noteq> []"
  shows "\<exists>afl'. calc_NCDm env afl refs
                  = (float_NCDm C (map (\<lambda>r. testcase_buf (deref afl r)) refs), afl')
          \<and> forget_sizes afl' = forget_sizes afl \<and> scratch_ok env afl'
          \<and> (\<forall>r. size_known C afl r \<longrightarrow> size_known C afl' r)
          \<and> (\<forall>r. testcase_buf (deref afl' r) = testcase_buf (deref afl r))"
proof -
  let ?T = "length (concat_entries afl refs)"
  let ?a1 = "foldl (learn C) afl refs"
  let ?a2 = "if prevLongest ?a1 \<le> ?T then grow_scratch env ?a1 ?T else ?a1"
  note fr = learn_fold_frame[of C afl refs]
  have ok1: "scratch_ok env ?a1" using ok fr by (simp add: scratch_ok_def)
  note cap = cap_after_growth[OF c ok1, of ?T]
  have s: "snd (calc_NCDm env afl refs) = ?a2" by (rule calc_NCDm_known(1)[OF c ok k])
  have f: "fst (calc_NCDm env afl refs) = float_NCDm C (map (\<lambda>r. testcase_buf (deref afl r)) refs)"
    by (rule calc_NCDm_known(2)[OF c ok k ne])
  have e: "calc_NCDm env afl refs = (float_NCDm C (map (\<lambda>r. testcase_buf (deref afl r)) refs), ?a2)"
    using s f by (cases "calc_NCDm env afl refs") simp
  have fs: "forget_sizes ?a2 = forget_sizes afl" using fr by simp
  have ok2: "scratch_ok env ?a2" using cap by simp
  have bufs: "testcase_buf (deref ?a2 r) = testcase_buf (deref afl r)" for r
    using fr by simp
  have sk: "size_known C ?a2 r" if "size_known C afl r" for r
  proof -
    have k1: "size_known C ?a1 r" using fr that by simp
    have d: "deref ?a2 r = deref ?a1 r" by simp
    have v: "valid_ref ?a2 r = valid_ref ?a1 r" by simp
    have m: "maxCompressedLen ?a1 \<le> maxCompressedLen ?a2" using cap by simp
    show ?thesis using k1 m unfolding size_known_def d v by auto
  qed
  show ?thesis
  proof (intro exI[of _ ?a2] conjI allI impI)
    show "calc_NCDm env afl refs = (float_NCDm C (map (\<lambda>r. testcase_buf (deref afl r)) refs), ?a2)"
      by (rule e)
    show "forget_sizes ?a2 = forget_sizes afl" by (rule fs)
    show "scratch_ok env ?a2" by (rule ok2)
    show "size_known C ?a2 r" if "size_known C afl r" for r using that by (rule sk)
    show "testcase_buf (deref ?a2 r) = testcase_buf (deref afl r)" for r by (rule bufs)
  qed
qed

lemma argmax_fold:
  fixes f :: "nat \<Rightarrow> rat"
  shows "foldl (\<lambda>(c, b) i. if f i > b then (int i, f i) else (c, b)) (c0, b0) [0..<k] = (c, b) \<Longrightarrow>
     (b = b0 \<and> c = c0 \<and> (\<forall>i<k. f i \<le> b0))
     \<or> (\<exists>j<k. c = int j \<and> b = f j \<and> f j > b0 \<and> (\<forall>i<k. f i \<le> f j) \<and> (\<forall>i<j. f i < f j))"
proof (induction k arbitrary: c b)
  case 0
  then show ?case by simp
next
  case (Suc k)
  obtain c1 b1 where p: "foldl (\<lambda>(c, b) i. if f i > b then (int i, f i) else (c, b)) (c0, b0) [0..<k] = (c1, b1)"
    by (cases "foldl (\<lambda>(c, b) i. if f i > b then (int i, f i) else (c, b)) (c0, b0) [0..<k]") auto
  from Suc.IH[OF p] have ih: "(b1 = b0 \<and> c1 = c0 \<and> (\<forall>i<k. f i \<le> b0))
     \<or> (\<exists>j<k. c1 = int j \<and> b1 = f j \<and> f j > b0 \<and> (\<forall>i<k. f i \<le> f j) \<and> (\<forall>i<j. f i < f j))" .
  from Suc.prems p have st: "(c, b) = (if f k > b1 then (int k, f k) else (c1, b1))" by simp
  show ?case
  proof (cases "f k > b1")
    case True
    then have cb: "c = int k" "b = f k" using st by simp_all
    from ih have "b0 \<le> b1 \<and> (\<forall>i<k. f i \<le> b1)" by auto
    then have "f k > b0 \<and> (\<forall>i<Suc k. f i \<le> f k) \<and> (\<forall>i<k. f i < f k)"
      using True by (auto simp add: less_Suc_eq)
    then show ?thesis using cb by auto
  next
    case False
    then have cb: "c = c1" "b = b1" using st by simp_all
    from ih show ?thesis
    proof
      assume "b1 = b0 \<and> c1 = c0 \<and> (\<forall>i<k. f i \<le> b0)"
      then show ?thesis using cb False by (auto simp add: less_Suc_eq)
    next
      assume "\<exists>j<k. c1 = int j \<and> b1 = f j \<and> f j > b0 \<and> (\<forall>i<k. f i \<le> f j) \<and> (\<forall>i<j. f i < f j)"
      then obtain j where j: "j < k" "c1 = int j" "b1 = f j" "f j > b0" "\<forall>i<k. f i \<le> f j"
        "\<forall>i<j. f i < f j" by auto
      then have "j < Suc k \<and> c = int j \<and> b = f j \<and> f j > b0 \<and> (\<forall>i<Suc k. f i \<le> f j)
                 \<and> (\<forall>i<j. f i < f j)"
        using cb False by (auto simp add: less_Suc_eq)
      then show ?thesis by blast
    qed
  qed
qed

lemma eviction_fold:
  assumes c: "compressor env C" and ok: "scratch_ok env afl"
    and kn: "\<forall>r\<in>set (new # ex). size_known C afl r"
  shows "\<exists>afl'. foldl (eviction_step env ex new) (afl, c0, b0) [0..<k]
            = (afl', foldl (\<lambda>(c, b) i. if candidate_score C afl ex new i > b
                                       then (int i, candidate_score C afl ex new i) else (c, b))
                           (c0, b0) [0..<k])
          \<and> forget_sizes afl' = forget_sizes afl \<and> scratch_ok env afl'
          \<and> (\<forall>r. size_known C afl r \<longrightarrow> size_known C afl' r)
          \<and> (\<forall>r. testcase_buf (deref afl' r) = testcase_buf (deref afl r))"
proof (induction k)
  case 0
  then show ?case using ok by simp
next
  case (Suc k)
  let ?pure = "\<lambda>(c, b) i. if candidate_score C afl ex new i > b
                                       then (int i, candidate_score C afl ex new i) else (c, b)"
  from Suc obtain a1 where
    f1: "foldl (eviction_step env ex new) (afl, c0, b0) [0..<k] = (a1, foldl ?pure (c0, b0) [0..<k])"
    and fs1: "forget_sizes a1 = forget_sizes afl" and ok1: "scratch_ok env a1"
    and sk1: "\<forall>r. size_known C afl r \<longrightarrow> size_known C a1 r"
    and b1: "\<forall>r. testcase_buf (deref a1 r) = testcase_buf (deref afl r)"
    by blast
  obtain c1 bb1 where p: "foldl ?pure (c0, b0) [0..<k] = (c1, bb1)"
    by (cases "foldl ?pure (c0, b0) [0..<k]") auto
  let ?all = "take k ex @ drop (k + 1) ex @ [new]"
  have sub: "set ?all \<subseteq> set (new # ex)"
    using set_take_subset[of k ex] set_drop_subset[of "k + 1" ex] by auto
  have kn1: "\<forall>r\<in>set ?all. size_known C a1 r" using sub kn sk1 by blast
  have ne: "?all \<noteq> []" by simp
  from calc_NCDm_step[OF c ok1 kn1 ne] obtain a2 where
    e2: "calc_NCDm env a1 ?all = (float_NCDm C (map (\<lambda>r. testcase_buf (deref a1 r)) ?all), a2)"
    and fs2: "forget_sizes a2 = forget_sizes a1" and ok2: "scratch_ok env a2"
    and sk2: "\<forall>r. size_known C a1 r \<longrightarrow> size_known C a2 r"
    and b2: "\<forall>r. testcase_buf (deref a2 r) = testcase_buf (deref a1 r)"
    by blast
  have sc: "float_NCDm C (map (\<lambda>r. testcase_buf (deref a1 r)) ?all) = candidate_score C afl ex new k"
    using b1 by (simp add: candidate_score_def leave_out_def)
  have step: "eviction_step env ex new (a1, c1, bb1) k = (a2, ?pure (c1, bb1) k)"
    unfolding eviction_step_def using e2 sc by (simp add: Let_def)
  have "foldl (eviction_step env ex new) (afl, c0, b0) [0..<Suc k] = (a2, foldl ?pure (c0, b0) [0..<Suc k])"
    using f1 p step by simp
  moreover have "forget_sizes a2 = forget_sizes afl" using fs1 fs2 by simp
  moreover have "\<forall>r. size_known C afl r \<longrightarrow> size_known C a2 r" using sk1 sk2 by blast
  moreover have "\<forall>r. testcase_buf (deref a2 r) = testcase_buf (deref afl r)" using b1 b2 by simp
  ultimately show ?case using ok2 by blast
qed

lemma find_eviction_candidate_spec:
  assumes c: "compressor env C" and ok: "scratch_ok env afl"
    and kn: "\<forall>r\<in>set (new # existing). size_known C afl r"
    and le: "length existing \<le> 32"
  shows "\<exists>r afl'. find_eviction_candidate env afl cs existing new False = Inr (r, afl')
          \<and> forget_sizes afl' = forget_sizes afl
          \<and> best_replacement (candidate_score C afl existing new) (length existing) cs r"
proof -
  let ?f = "candidate_score C afl existing new"
  let ?pure = "\<lambda>(c, b) i. if ?f i > b then (int i, ?f i) else (c, b)"
  let ?n = "length existing"
  from eviction_fold[OF c ok kn, of "- 1" cs ?n] obtain a' where
    f: "foldl (eviction_step env existing new) (afl, - 1, cs) [0..<?n]
          = (a', foldl ?pure (- 1, cs) [0..<?n])"
    and fs: "forget_sizes a' = forget_sizes afl"
    by blast
  obtain cc bb where p: "foldl ?pure (- 1, cs) [0..<?n] = (cc, bb)"
    by (cases "foldl ?pure (- 1, cs) [0..<?n]") auto
  from argmax_fold[OF p] have am: "(bb = cs \<and> cc = - 1 \<and> (\<forall>i<?n. ?f i \<le> cs))
     \<or> (\<exists>j<?n. cc = int j \<and> bb = ?f j \<and> ?f j > cs \<and> (\<forall>i<?n. ?f i \<le> ?f j)
                \<and> (\<forall>i<j. ?f i < ?f j))" .
  have res: "find_eviction_candidate env afl cs existing new False
        = Inr (if bb \<le> cs then - 1 else cc, a')"
    using le f p by (simp add: find_eviction_candidate_def)
  from am show ?thesis
  proof
    assume a: "bb = cs \<and> cc = - 1 \<and> (\<forall>i<?n. ?f i \<le> cs)"
    then have "find_eviction_candidate env afl cs existing new False = Inr (- 1, a')"
      using res by simp
    moreover have "best_replacement ?f ?n cs (- 1)"
      using a by (simp add: best_replacement_def)
    ultimately show ?thesis using fs by blast
  next
    assume "\<exists>j<?n. cc = int j \<and> bb = ?f j \<and> ?f j > cs \<and> (\<forall>i<?n. ?f i \<le> ?f j)
                \<and> (\<forall>i<j. ?f i < ?f j)"
    then obtain j where j: "j < ?n" "cc = int j" "bb = ?f j" "?f j > cs" "\<forall>i<?n. ?f i \<le> ?f j"
      "\<forall>i<j. ?f i < ?f j"
      by auto
    then have r: "find_eviction_candidate env afl cs existing new False = Inr (int j, a')"
      using res by simp
    have nall: "\<not> (\<forall>i<?n. ?f i \<le> cs)" using j(1,4) by (auto simp add: not_le)
    have "best_replacement ?f ?n cs (int j)"
      unfolding best_replacement_def using nall j by simp
    then show ?thesis using r fs by blast
  qed
qed

text \<open>
  Claim C4, amended: for a cell of at most 32 entries and a candidate, all with known
  compressed sizes, of total length below \<open>2 ^ 29\<close> and with a scratch of at most \<open>2 ^ 30\<close>
  bytes, \<^verbatim>\<open>find_eviction_candidate\<close> called with \<open>forced = false\<close> returns, and what it
  compares are the single-precision scores that \<^verbatim>\<open>calc_NCDm\<close> computes. It returns \<open>-1\<close>
  when no index \<open>i\<close> makes the single-precision score of the cell's entries without entry
  \<open>i\<close> plus the candidate strictly greater than the cell's recorded score; otherwise it
  returns the first index whose single-precision score is the greatest, and that score
  is strictly greater than the recorded one. On \<open>-1\<close> the saturated branch of
  \<^verbatim>\<open>save_to_edge_entries\<close> (no member of the cell has duplicates, the rate limit allows the
  computation) leaves its variables as they are, with the state that
  \<^verbatim>\<open>find_eviction_candidate\<close> returned: that state differs from the one after
  \<^verbatim>\<open>ensure_trace_mini\<close> in cached compressed lengths and scratch sizes only, so no entry
  is evicted.
\<close>

theorem find_eviction_candidate_strict_argmax:
  assumes "compressor env C"
    and "ensure_trace_mini env (cur L) q_entry = Inr afl1"
    and "scratch_ok env afl1"
    and "\<forall>r\<in>set (q_entry # map InQueue (entries (edge_entries afl1 ! pos))). size_known C afl1 r"
    and "length (entries (edge_entries afl1 ! pos)) \<le> 32"
    and "length (concat_entries afl1 (q_entry # map InQueue (entries (edge_entries afl1 ! pos))))
           < 2 ^ 29"
    and "prevLongest afl1 \<le> 2 ^ 30"
  shows "\<exists>r afl2.
           find_eviction_candidate env afl1 (normalised_compression_dist (edge_entries afl1 ! pos))
               (map InQueue (entries (edge_entries afl1 ! pos))) q_entry False = Inr (r, afl2)
         \<and> forget_sizes afl2 = forget_sizes afl1
         \<and> best_replacement
               (candidate_score C afl1 (map InQueue (entries (edge_entries afl1 ! pos))) q_entry)
               (length (entries (edge_entries afl1 ! pos)))
               (normalised_compression_dist (edge_entries afl1 ! pos)) r
         \<and> (r = - 1
              \<and> find (\<lambda>i. duplicates (queue_buf (cur L) ! (entries (edge_entries (cur L) ! pos) ! i)) \<noteq> 0)
                     [0..<entry_count (edge_entries (cur L) ! pos)] = None
              \<and> should_calc_NCD (hit_count (edge_entries (cur L) ! pos))
            \<longrightarrow> saturated_cell env q_entry L pos = Inr (L\<lparr>cur := afl2\<rparr>))"
proof -
  let ?ex = "map InQueue (entries (edge_entries afl1 ! pos))"
  let ?cs = "normalised_compression_dist (edge_entries afl1 ! pos)"
  have le: "length ?ex \<le> 32" using assms(5) by simp
  from find_eviction_candidate_spec[OF assms(1) assms(3) assms(4) le, of ?cs]
  obtain r afl2 where
    f: "find_eviction_candidate env afl1 ?cs ?ex q_entry False = Inr (r, afl2)"
    and fs: "forget_sizes afl2 = forget_sizes afl1"
    and sp: "best_replacement (candidate_score C afl1 ?ex q_entry) (length ?ex) ?cs r"
    by blast
  have sp': "best_replacement (candidate_score C afl1 ?ex q_entry)
               (length (entries (edge_entries afl1 ! pos))) ?cs r"
    using sp by simp
  have caller: "r = - 1
              \<and> find (\<lambda>i. duplicates (queue_buf (cur L) ! (entries (edge_entries (cur L) ! pos) ! i)) \<noteq> 0)
                     [0..<entry_count (edge_entries (cur L) ! pos)] = None
              \<and> should_calc_NCD (hit_count (edge_entries (cur L) ! pos))
            \<longrightarrow> saturated_cell env q_entry L pos = Inr (L\<lparr>cur := afl2\<rparr>)"
    unfolding saturated_cell_def using f assms(2) by (simp add: Let_def)
  show ?thesis
    apply (rule exI[of _ r], rule exI[of _ afl2])
    apply (rule conjI[OF f])
    apply (rule conjI[OF fs])
    apply (rule conjI[OF sp'])
    apply (rule caller)
    done
qed

lemma saturated_example_fields:
  "entries (edge_entries (cur (saturated_example d)) ! 3) = [0, 1]"
  "normalised_compression_dist (edge_entries (cur (saturated_example d)) ! 3) = d"
  "hit_count (edge_entries (cur (saturated_example d)) ! 3) = 5"
  "queue_buf (cur (saturated_example d)) = queue_buf example_afl"
  "stack_entry (cur (saturated_example d)) = (stack_entry example_afl)\<lparr>trace_mini := Some [0]\<rparr>"
  "prevLongest (cur (saturated_example d)) = 16"
  "maxCompressedLen (cur (saturated_example d)) = 32"
  by (simp_all add: saturated_example_def example_afl_def initial_afl_def)

lemma saturated_example_scores:
  "candidate_score toy_C (cur (saturated_example d)) [InQueue 0, InQueue 1] OnStack 0 = 3 / 4"
  "candidate_score toy_C (cur (saturated_example d)) [InQueue 0, InQueue 1] OnStack 1 = 3 / 4"
  by (simp_all add: candidate_score_def float_NCDm_def leave_out_def saturated_example_fields
      float_of_small
      example_afl_def toy_C_def zeroed_queue_entry_def Let_def upt_conv_Cons)

theorem find_eviction_candidate_strict_argmax_witness:
  "compressor toy_env toy_C
   \<and> ensure_trace_mini toy_env (cur (saturated_example (3 / 4))) OnStack
         = Inr (cur (saturated_example (3 / 4)))
   \<and> scratch_ok toy_env (cur (saturated_example (3 / 4)))
   \<and> size_known toy_C (cur (saturated_example (3 / 4))) OnStack
   \<and> size_known toy_C (cur (saturated_example (3 / 4))) (InQueue 0)
   \<and> size_known toy_C (cur (saturated_example (3 / 4))) (InQueue 1)
   \<and> length (concat_entries (cur (saturated_example (3 / 4))) [OnStack, InQueue 0, InQueue 1])
       < 2 ^ 29
   \<and> prevLongest (cur (saturated_example (3 / 4))) \<le> 2 ^ 30
   \<and> (\<exists>afl2. find_eviction_candidate toy_env (cur (saturated_example (3 / 4))) (3 / 4)
                   [InQueue 0, InQueue 1] OnStack False = Inr (- 1, afl2)
              \<and> saturated_cell toy_env OnStack (saturated_example (3 / 4)) 3
                   = Inr ((saturated_example (3 / 4))\<lparr>cur := afl2\<rparr>)
              \<and> forget_sizes afl2 = forget_sizes (cur (saturated_example (3 / 4))))"
proof -
  let ?L = "saturated_example (3 / 4)"
  let ?a = "cur ?L"
  have e: "ensure_trace_mini toy_env ?a OnStack = Inr ?a"
    by (simp add: ensure_trace_mini_def saturated_example_fields)
  have ok: "scratch_ok toy_env ?a"
    by (simp add: scratch_ok_def saturated_example_fields toy_env_def)
  have k: "size_known toy_C ?a OnStack" "size_known toy_C ?a (InQueue 0)" "size_known toy_C ?a (InQueue 1)"
    by (simp_all add: size_known_def saturated_example_fields example_afl_def toy_C_def
        zeroed_queue_entry_def)
  have kn: "\<forall>r\<in>set (OnStack # map InQueue (entries (edge_entries ?a ! 3))). size_known toy_C ?a r"
    using k by (simp add: saturated_example_fields)
  have le: "length (entries (edge_entries ?a ! 3)) \<le> 32"
    by (simp add: saturated_example_fields)
  have tl: "length (concat_entries ?a [OnStack, InQueue 0, InQueue 1]) < 2 ^ 29"
    by (simp add: concat_entries_def saturated_example_fields example_afl_def zeroed_queue_entry_def)
  have tl': "length (concat_entries ?a (OnStack # map InQueue (entries (edge_entries ?a ! 3)))) < 2 ^ 29"
    using tl by (simp add: saturated_example_fields)
  have pl: "prevLongest ?a \<le> 2 ^ 30" by (simp add: saturated_example_fields)
  have sc: "\<forall>i<2. candidate_score toy_C ?a [InQueue 0, InQueue 1] OnStack i \<le> 3 / 4"
    using saturated_example_scores[of "3 / 4"] less_2_cases by fastforce
  have nd: "find (\<lambda>i. duplicates (queue_buf ?a ! (entries (edge_entries ?a ! 3) ! i)) \<noteq> 0)
                 [0..<entry_count (edge_entries ?a ! 3)] = None"
    by (simp add: saturated_example_fields example_afl_def zeroed_queue_entry_def upt_conv_Cons)
  have rl: "should_calc_NCD (hit_count (edge_entries ?a ! 3))"
    by (simp add: saturated_example_fields should_calc_NCD_def)
  from find_eviction_candidate_strict_argmax[OF compressor_toy e ok kn le tl' pl]
  obtain r afl2 where
    f0: "find_eviction_candidate toy_env ?a (normalised_compression_dist (edge_entries ?a ! 3))
           (map InQueue (entries (edge_entries ?a ! 3))) OnStack False = Inr (r, afl2)"
    and fs: "forget_sizes afl2 = forget_sizes ?a"
    and br0: "best_replacement
               (candidate_score toy_C ?a (map InQueue (entries (edge_entries ?a ! 3))) OnStack)
               (length (entries (edge_entries ?a ! 3)))
               (normalised_compression_dist (edge_entries ?a ! 3)) r"
    and s0: "r = - 1
              \<and> find (\<lambda>i. duplicates (queue_buf ?a ! (entries (edge_entries ?a ! 3) ! i)) \<noteq> 0)
                     [0..<entry_count (edge_entries ?a ! 3)] = None
              \<and> should_calc_NCD (hit_count (edge_entries ?a ! 3))
            \<longrightarrow> saturated_cell toy_env OnStack ?L 3 = Inr (?L\<lparr>cur := afl2\<rparr>)"
    by blast
  have f: "find_eviction_candidate toy_env ?a (3 / 4) [InQueue 0, InQueue 1] OnStack False = Inr (r, afl2)"
    using f0 by (simp add: saturated_example_fields)
  have br: "best_replacement (candidate_score toy_C ?a [InQueue 0, InQueue 1] OnStack) 2 (3 / 4) r"
    using br0 by (simp add: saturated_example_fields numeral_2_eq_2)
  have r: "r = - 1" using br sc by (simp add: best_replacement_def)
  have s: "saturated_cell toy_env OnStack ?L 3 = Inr (?L\<lparr>cur := afl2\<rparr>)"
    using s0 r nd rl by blast
  show ?thesis using compressor_toy e ok k tl pl f fs r s by blast
qed

lemma alternating_distinct_adj:
  "distinct_adj (alternating n)" "distinct_adj (alternating n @ [9])"
proof -
  have nth: "alternating n ! i = (if even i then 0 else 1)" if "i < n" for i
    using that by (simp add: alternating_def)
  show "distinct_adj (alternating n)"
    unfolding distinct_adj_conv_nth by (simp add: alternating_def)
  show "distinct_adj (alternating n @ [9])"
    unfolding distinct_adj_conv_nth
  proof (intro allI impI)
    fix i assume "Suc i < length (alternating n @ [9])"
    then have i: "i < n" by (simp add: alternating_def)
    have l: "length (alternating n) = n" by (simp add: alternating_def)
    show "(alternating n @ [9]) ! i \<noteq> (alternating n @ [9]) ! Suc i"
    proof (cases "Suc i < n")
      case True
      then show ?thesis using i by (simp add: nth_append l nth)
    next
      case False
      then have "Suc i = n" using i by simp
      then show ?thesis using i by (auto simp add: nth_append l nth)
    qed
  qed
qed

lemma toy_C_alternating:
  "toy_C (alternating n) = Suc n" "toy_C (alternating n @ [9]) = n + 2" "toy_C [9] = 2"
  using alternating_distinct_adj[of n]
  by (simp_all add: toy_C_def distinct_adj_altdef alternating_def)

lemma float_of_tie:
  "float_of 2 = 2" "float_of 4140 = 4140" "float_of 4141 = 4141" "float_of 4142 = 4142"
  "float_of 4143 = 4143"
  "float_of (4140 / 4141) = 16773165 / 16777216" "float_of (4141 / 4142) = 16773165 / 16777216"
  by code_simp+

lemma tie_afl_fields:
  "testcase_buf (queue_buf tie_afl ! 0) = alternating 4141"
  "testcase_buf (queue_buf tie_afl ! Suc 0) = alternating 4140"
  "testcase_buf (stack_entry tie_afl) = [9]"
  "compressed_len (queue_buf tie_afl ! 0) = 4142"
  "compressed_len (queue_buf tie_afl ! Suc 0) = 4141"
  "compressed_len (stack_entry tie_afl) = 2"
  "queued_paths tie_afl = 2"
  "prevLongest tie_afl = 0" "maxCompressedLen tie_afl = 0"
  by (simp_all add: tie_afl_def initial_afl_def)

lemma tie_afl_known:
  "scratch_ok toy_env tie_afl"
  "size_known toy_C tie_afl (InQueue 0)"
  "size_known toy_C tie_afl (InQueue 1)"
  "size_known toy_C tie_afl OnStack"
  by (simp_all add: scratch_ok_def size_known_def tie_afl_fields toy_C_alternating)

lemma tie_afl_scores:
  "candidate_score toy_C tie_afl [InQueue 0, InQueue 1] OnStack 0 = 16773165 / 16777216"
  "candidate_score toy_C tie_afl [InQueue 0, InQueue 1] OnStack 1 = 16773165 / 16777216"
  "exact_candidate_score toy_C tie_afl [InQueue 0, InQueue 1] OnStack 0 = 4140 / 4141"
  "exact_candidate_score toy_C tie_afl [InQueue 0, InQueue 1] OnStack 1 = 4141 / 4142"
  by (simp_all add: candidate_score_def exact_candidate_score_def float_NCDm_def spec_NCDm_def
      leave_out_def tie_afl_fields toy_C_alternating Let_def upt_conv_Cons float_of_tie)

lemma if_elseD: "(if c then a else b) \<Longrightarrow> \<not> c \<Longrightarrow> b"
  by simp

text \<open>
  The claim as it stands, with the specification's exact scores, fails. In the state
  \<open>tie_afl\<close> the candidate sets for the indices 0 and 1 have the exact scores
  \<open>4140 / 4141\<close> and \<open>4141 / 4142\<close>, both above the recorded score 0; both round to the
  \<^verbatim>\<open>float\<close> \<open>16773165 / 16777216\<close>, so the comparison at index 1 is not strict and
  \<^verbatim>\<open>find_eviction_candidate\<close> returns 0, whose exact score is not the greatest.
\<close>

theorem find_eviction_candidate_float_tie:
  "(\<exists>afl'. find_eviction_candidate toy_env tie_afl 0 [InQueue 0, InQueue 1] OnStack False
            = Inr (0, afl'))
   \<and> 0 < exact_candidate_score toy_C tie_afl [InQueue 0, InQueue 1] OnStack 0
   \<and> exact_candidate_score toy_C tie_afl [InQueue 0, InQueue 1] OnStack 0
       < exact_candidate_score toy_C tie_afl [InQueue 0, InQueue 1] OnStack 1"
proof -
  let ?f = "candidate_score toy_C tie_afl [InQueue 0, InQueue 1] OnStack"
  have kn: "\<forall>r\<in>set (OnStack # [InQueue 0, InQueue 1]). size_known toy_C tie_afl r"
    using tie_afl_known by simp
  have le: "length [InQueue 0, InQueue 1 :: qref] \<le> 32" by simp
  from find_eviction_candidate_spec[OF compressor_toy tie_afl_known(1) kn le, of 0]
  obtain r afl' where
    f: "find_eviction_candidate toy_env tie_afl 0 [InQueue 0, InQueue 1] OnStack False = Inr (r, afl')"
    and br: "best_replacement ?f (length [InQueue 0, InQueue 1 :: qref]) 0 r"
    by blast
  have nall: "\<not> (\<forall>i<length [InQueue 0, InQueue 1 :: qref]. ?f i \<le> 0)"
  proof
    assume "\<forall>i<length [InQueue 0, InQueue 1 :: qref]. ?f i \<le> 0"
    then have "?f 0 \<le> 0" by simp
    then show False using tie_afl_scores by simp
  qed
  note e = if_elseD[OF br[unfolded best_replacement_def] nall]
  have r: "0 \<le> r" "nat r < 2" "\<forall>i<nat r. ?f i < ?f (nat r)"
    using e by simp_all
  have "nat r \<noteq> 1"
  proof
    assume e: "nat r = 1"
    then have "?f 0 < ?f 1" using r(3) by simp
    then show False using tie_afl_scores by simp
  qed
  then have "nat r = 0" using r(2) by linarith
  then have "r = 0" using r(1) by simp
  then have "\<exists>afl'. find_eviction_candidate toy_env tie_afl 0 [InQueue 0, InQueue 1] OnStack False
            = Inr (0, afl')" using f by blast
  then show ?thesis using tie_afl_scores by simp
qed


section \<open>The unassigned calibration result\<close>

lemma upt_8: "[0..<8] = [0, 1, 2, 3, 4, 5, 6, 7]"
  by (simp add: upt_conv_Cons)

lemma reps_loop_1: "reps_loop 1 0 = 0"
  by (simp add: reps_loop.simps)

lemma bitcnt5: "bitcnt_loop 0 (Suc (Suc (Suc (Suc (Suc 0))))) = 2"
  by (simp add: bitcnt_loop.simps)

lemmas run_defs = process_edge_def initial_afl_def reps_loop_1 Let_def
      store_new_entry_def toy_env_def add_to_queue_def zeroed_queue_entry_def
      ensure_trace_mini_def fill_trace_mini_and_compressed_len_def grow_scratch_def bitcnt5
      minimize_bits_def upt_8 toy_C_def register_input_hash_def zeroed_edge_entry_def
      calibrate_or_copy_def run_calibrate_case_def calibration_of_def count_class_lookup8_def
      calc_NCDm_def ncdm_measure_step_def concat_entries_def concat_without_def
      save_to_edge_entries_def process_word_def

lemma first_pass:
  "save_to_edge_entries toy_env (fresh_afl vb ck) OnStack nb = Inr (True, stored_afl vb ck)"
  by (simp add: stored_afl_def fresh_afl_def run_defs float_of_small)

lemma rep8: "replicate 8 x = [x, x, x, x, x, x, x, x]"
  by (simp add: numeral_eq_Suc)

lemma has_new_bits_unclassified_example:
  "has_new_bits_unclassified toy_run_env example_run Virgin_bits
     = (2, example_run\<lparr>core := (core example_run)
                           \<lparr>virgin_bits := [254, 255, 255, 255, 255, 255, 255, 255]\<rparr>,
                        bitmap_changed := True\<rparr>)"
  by (simp add: has_new_bits_unclassified_def has_new_bits_def toy_run_env_def example_run_def
     initial_afl_def set_trace_def count_class_lookup8_def Let_def rep8)

lemma count_path_flags:
  assumes "count_path env renv a = (ck, a0)"
  shows "crash_mode a0 = crash_mode a" "ncd_based_queue a0 = ncd_based_queue a"
  using assms by (auto simp add: count_path_def Let_def split: if_splits)

lemma set_virgin_flags [simp]: "ncd_based_queue (set_virgin a vm v) = ncd_based_queue a"
  by (cases vm) simp_all

lemma has_new_bits_flags:
  assumes "has_new_bits renv a vm = (r, a')"
  shows "ncd_based_queue a' = ncd_based_queue a"
  using assms
  by (auto simp add: has_new_bits_def Let_def split: prod.splits if_splits)

lemma has_new_bits_unclassified_flags:
  assumes "has_new_bits_unclassified renv a vm = (r, a')"
  shows "ncd_based_queue a' = ncd_based_queue a"
proof (cases "skim renv (get_virgin a vm) (trace_bits (fsrv (core a)))")
  case True
  then have "has_new_bits renv (set_trace a (classify_counts renv (trace_bits (fsrv (core a))))) vm = (r, a')"
    using assms by (simp add: has_new_bits_unclassified_def)
  from has_new_bits_flags[OF this] show ?thesis by (simp add: set_trace_def)
next
  case False
  then show ?thesis using assms by (simp add: has_new_bits_unclassified_def)
qed

lemma ncd_queue_step_flags:
  assumes "ncd_queue_step env a1 mem nb ck0 = Inr (ck1, a3)"
  shows "ncd_based_queue a3 = ncd_based_queue a1"
  using assms
  by (auto simp add: ncd_queue_step_def Let_def split: if_splits sum.splits prod.splits)

lemma check_if_new_partition_flags:
  assumes "check_if_new_partition a ck p = Inr (np, a')"
  shows "ncd_based_queue a' = ncd_based_queue a" "queue_top a' = queue_top a"
    "hashfuzz_enabled a' = hashfuzz_enabled a"
    "hashfuzz_mimic_transformation a' = hashfuzz_mimic_transformation a"
  using assms
  by (auto simp add: check_if_new_partition_def Let_def split: if_splits option.splits)

lemma hashfuzz_step_flags:
  assumes "hashfuzz_step env renv a3 mem i ck1 = Inr (cls, np, i', ck2, a4)"
  shows "ncd_based_queue a4 = ncd_based_queue a3"
  using assms check_if_new_partition_flags(1)
  by (auto simp add: hashfuzz_step_def Let_def split: if_splits sum.splits prod.splits)

text \<open>
  Claim C9: there is an execution of \<^verbatim>\<open>save_if_interesting\<close> that reads \<^verbatim>\<open>res\<close> before any
  assignment to it. With a non-empty input, \<^verbatim>\<open>fault\<close> equal to \<^verbatim>\<open>crash_mode\<close> and the
  NCD-based queue enabled, every execution in which \<^verbatim>\<open>save_to_edge_entries\<close> and the hashfuzz
  block return, the input is interesting, and \<^verbatim>\<open>queue_top\<close> is not null where it is
  dereferenced, reaches the comparison of \<^verbatim>\<open>res\<close> with \<^verbatim>\<open>FSRV_RUN_ERROR\<close> with \<^verbatim>\<open>res\<close>
  unassigned: the only assignment, from \<^verbatim>\<open>calibrate_case\<close>, is under
  \<^verbatim>\<open>!afl->ncd_based_queue\<close>. The first execution of a fuzzer whose trace hits one new
  edge is such an execution.
\<close>

theorem save_if_interesting_reads_unassigned_res:
  assumes "mem \<noteq> []" and "fault = crash_mode afl" and "ncd_based_queue afl"
    and "count_path env renv afl = (cksum0, a0)"
    and "has_new_bits_unclassified renv a0 Virgin_bits = (new_bits, a1)"
    and "ncd_queue_step env a1 mem new_bits cksum0 = Inr (cksum1, a3)"
    and "hashfuzz_step env renv a3 mem (new_bits \<noteq> 0) cksum1
           = Inr (hashfuzzClass, new_partition, True, cksum2, a4)"
    and "new_bits = 2 \<or> hashfuzz_mimic_transformation a4 \<longrightarrow> queue_top a4 \<noteq> None"
  shows "save_if_interesting env renv afl mem fault = Inl UninitialisedRead"
proof -
  have c0: "crash_mode a0 = crash_mode afl" and n0: "ncd_based_queue a0"
    using count_path_flags[OF assms(4)] assms(3) by simp_all
  have n1: "ncd_based_queue a1"
    using has_new_bits_unclassified_flags[OF assms(5)] n0 by simp
  have n3: "ncd_based_queue a3" using ncd_queue_step_flags[OF assms(6)] n1 by simp
  have n4: "ncd_based_queue a4" using hashfuzz_step_flags[OF assms(7)] n3 by simp
  have q: "queue_if_new env renv a0 mem cksum0 = Inl UninitialisedRead"
    unfolding queue_if_new_def using assms(5,6,7,8) n4
    by (auto simp add: Let_def split: option.splits)
  show ?thesis
    unfolding save_if_interesting_def using assms(1,2,4) c0 q by simp
qed

theorem save_if_interesting_reads_unassigned_res_witness:
  "[7, 7, 7, 8, 9] \<noteq> ([] :: u8 list) \<and> FSRV_RUN_OK = crash_mode example_run
   \<and> ncd_based_queue example_run
   \<and> save_if_interesting toy_env toy_run_env example_run [7, 7, 7, 8, 9] FSRV_RUN_OK
       = Inl UninitialisedRead"
proof -
  let ?vb = "[254, 255, 255, 255, 255, 255, 255, 255] :: u8 list"
  let ?a1 = "example_run\<lparr>core := (core example_run)\<lparr>virgin_bits := ?vb\<rparr>,
                          bitmap_changed := True\<rparr>"
  let ?a3 = "?a1\<lparr>discovering_q_entries := 1, core := stored_afl ?vb 9, queue_top := Some 0\<rparr>"
  have m: "[7, 7, 7, 8, 9] \<noteq> ([] :: u8 list)" by simp
  have f: "FSRV_RUN_OK = crash_mode example_run"
    by (simp add: FSRV_RUN_OK_def example_run_def)
  have n: "ncd_based_queue example_run" by (simp add: example_run_def)
  have cp: "count_path toy_env toy_run_env example_run = (0, example_run)"
    by (simp add: count_path_def toy_run_env_def example_run_def)
  have pr: "core example_run = initial_afl 8 2 [1, 0, 0, 0, 0, 0, 0, 0]"
    "discovering_q_entries example_run = 0" "queue_top example_run = None"
    "\<not> hashfuzz_enabled example_run"
    by (simp_all add: example_run_def)
  have tb: "trace_bits (fsrv (initial_afl 8 2 t)) = t" "queued_paths (initial_afl 8 2 t) = 0" for t
    by (simp_all add: initial_afl_def)
  have h: "hash64 toy_env [1, 0, 0, 0, 0, 0, 0, 0] = 9"
    by (simp add: toy_env_def)
  have fp: "save_to_edge_entries toy_env
              ((initial_afl 8 2 [1, 0, 0, 0, 0, 0, 0, 0])
                 \<lparr>virgin_bits := ?vb,
                  stack_entry := zeroed_queue_entry\<lparr>testcase_buf := [7, 7, 7, 8, 9],
                                                     exec_cksum := 9\<rparr>\<rparr>) OnStack 2
              = Inr (True, stored_afl ?vb 9)"
    using first_pass[of ?vb 9 2] by (simp add: fresh_afl_def)
  have q1: "queued_paths (stored_afl ?vb 9) = 1" "queue_buf (stored_afl ?vb 9) \<noteq> []"
    by (simp_all add: stored_afl_def)
  have nq: "ncd_queue_step toy_env ?a1 [7, 7, 7, 8, 9] 2 0 = Inr (9, ?a3)"
    unfolding ncd_queue_step_def
    by (simp add: Let_def n pr tb h fp q1)
  have hs: "hashfuzz_step toy_env toy_run_env ?a3 [7, 7, 7, 8, 9] ((2 :: u8) \<noteq> 0) 9
              = Inr (0, 0, True, 9, ?a3)"
    by (simp add: hashfuzz_step_def pr)
  have qt: "(2 :: u8) = 2 \<or> hashfuzz_mimic_transformation ?a3 \<longrightarrow> queue_top ?a3 \<noteq> None"
    by simp
  from save_if_interesting_reads_unassigned_res[OF m f n cp has_new_bits_unclassified_example nq hs qt]
  show ?thesis using m f n by simp
qed

section \<open>Processing the same trace again\<close>

lemma bump_frame [simp]:
  "fsrv (bump a p) = fsrv a"
  "length (edge_entries (bump a p)) = length (edge_entries a)"
  "entries (edge_entries (bump a p) ! p') = entries (edge_entries a ! p')"
  "ncd_entries_per_edge (bump a p) = ncd_entries_per_edge a"
  by (simp_all add: bump_def nth_list_update_total)

lemma foldl_bump_frame [simp]:
  "fsrv (foldl bump a ps) = fsrv a"
  "length (edge_entries (foldl bump a ps)) = length (edge_entries a)"
  "entries (edge_entries (foldl bump a ps) ! p') = entries (edge_entries a ! p')"
  by (induction ps arbitrary: a) simp_all


lemma locals_cur_id [simp]: "L\<lparr>cur := cur L\<rparr> = L"
  by simp






lemma bump_fields [simp]:
  "queue_buf (bump a p) = queue_buf a"
  "stack_entry (bump a p) = stack_entry a"
  "queue_input_hashmap (bump a p) = queue_input_hashmap a"
  "files (bump a p) = files a"
  "deref (bump a p) r = deref a r"
  by (cases r; simp add: bump_def)+

lemma foldl_bump_fields [simp]:
  "queue_buf (foldl bump a ps) = queue_buf a"
  "stack_entry (foldl bump a ps) = stack_entry a"
  "queue_input_hashmap (foldl bump a ps) = queue_input_hashmap a"
  "files (foldl bump a ps) = files a"
  "deref (foldl bump a ps) r = deref a r"
  by (induction ps arbitrary: a) simp_all









end
